theory Spec2Isabelle
  imports Main
begin

section \<open>The shared store\<close>

text \<open>
  Both modules (\<^verbatim>\<open>src/lib/async-api-queue.js\<close> and the class in
  \<^verbatim>\<open>src/unnamed/part_000\<close>) keep all their state in a Redis server reached through the
  callback client \<^verbatim>\<open>AsyncApiQueue.client\<close>. The server is not part of the repository; it
  is modelled by its documented behaviour:
  \<^item> a key holds a byte string and, optionally, the number of seconds it has left to live;
  \<^item> \<^verbatim>\<open>GET\<close> replies with the string or with \<^verbatim>\<open>null\<close>; a number that was stored comes
    back as its decimal text;
  \<^item> \<^verbatim>\<open>SET key value\<close> stores the value and clears any expiry, \<^verbatim>\<open>SET key value EX n\<close>
    stores it with \<open>n\<close> seconds to live and is refused when \<open>n\<close> is 0;
  \<^item> \<^verbatim>\<open>DEL\<close> replies with the number of keys removed;
  \<^item> a key whose seconds have run out is gone.
  Every command is one round trip, and any round trip may fail. The failures are
  scheduled by the list \<open>faults\<close>: each command takes the head of the list, fails when it is
  \<open>Some e\<close> and succeeds when it is \<open>None\<close> or when the list is used up.
  The key prefix is applied by the client to every key alike, so the store below
  is the view under that prefix.
\<close>

type_synonym key = string

type_synonym entry = "string \<times> nat option"

datatype store_error = InvalidExpire | Failure nat

record world =
  store :: "key \<Rightarrow> entry option"
  faults :: "store_error option list"
  emitted :: "string list"

text \<open>
  The JavaScript values that flow through the two modules. Numbers are the
  integers: the counters are whole numbers, and the model reads \<open>int\<close> for the doubles
  of JavaScript, which are exact on integers below \<open>2^53\<close>.
\<close>

datatype jsval = JNull | JBool bool | JNum int | JStr string | JArr "jsval list"

text \<open>
  A promise either resolves with a value or rejects. \<open>Message\<close> is a rejection with a
  string, \<open>StoreError\<close> a rejection with the error object the client passed to the callback.
  \<open>OutsideModel\<close> is not a rejection of the code: it marks the places where the code
  converts to a number a string that is not an optionally negated run of decimal digits
  (such a string can only reach a counter key when a caller passes the name of a counter
  key as a request id), where JavaScript continues with \<^verbatim>\<open>NaN\<close> or a fraction.
\<close>

datatype rejection = Message string | StoreError store_error | OutsideModel

type_synonym 'a io = "world \<Rightarrow> (rejection + 'a) \<times> world"

definition resolve :: "'a \<Rightarrow> 'a io" where
  "resolve x w = (Inr x, w)"

definition reject :: "rejection \<Rightarrow> 'a io" where
  "reject e w = (Inl e, w)"

text \<open>\<^verbatim>\<open>let x = await m; ...\<close> inside an async function: a rejection of \<open>m\<close> is
  thrown at the \<^verbatim>\<open>await\<close> and rejects the function, nothing after it runs.\<close>

definition await :: "'a io \<Rightarrow> ('a \<Rightarrow> 'b io) \<Rightarrow> 'b io" where
  "await m f w = (case m w of (Inl e, w') \<Rightarrow> (Inl e, w') | (Inr x, w') \<Rightarrow> f x w')"

text \<open>\<^verbatim>\<open>Promise.all([m1, m2])\<close> of two single commands: both are sent before either
  reply arrives, the replies come back in the order sent, and the first rejection wins.\<close>

definition promise_all :: "jsval io \<Rightarrow> jsval io \<Rightarrow> jsval io" where
  "promise_all m1 m2 w =
     (case m1 w of (r1, w1) \<Rightarrow>
        (case m2 w1 of (r2, w2) \<Rightarrow>
           ((case r1 of Inl e \<Rightarrow> Inl e
             | Inr a \<Rightarrow> (case r2 of Inl e \<Rightarrow> Inl e | Inr b \<Rightarrow> Inr (JArr [a, b]))), w2)))"

definition next_fault :: "world \<Rightarrow> store_error option \<times> world" where
  "next_fault w = (case faults w of [] \<Rightarrow> (None, w) | f # fs \<Rightarrow> (f, w\<lparr>faults := fs\<rparr>))"

definition client_get :: "key \<Rightarrow> jsval io" where
  "client_get k w =
     (case next_fault w of
        (Some e, w') \<Rightarrow> (Inl (StoreError e), w')
      | (None, w') \<Rightarrow> (Inr (case store w' k of None \<Rightarrow> JNull | Some (v, _) \<Rightarrow> JStr v), w'))"

definition client_set :: "key \<Rightarrow> string \<Rightarrow> nat option \<Rightarrow> jsval io" where
  "client_set k v ex w =
     (case next_fault w of
        (Some e, w') \<Rightarrow> (Inl (StoreError e), w')
      | (None, w') \<Rightarrow>
          if ex = Some 0 then (Inl (StoreError InvalidExpire), w')
          else (Inr (JStr ''OK''), w'\<lparr>store := (store w')(k \<mapsto> (v, ex))\<rparr>))"

definition client_del :: "key \<Rightarrow> jsval io" where
  "client_del k w =
     (case next_fault w of
        (Some e, w') \<Rightarrow> (Inl (StoreError e), w')
      | (None, w') \<Rightarrow>
          (Inr (JNum (if store w' k = None then 0 else 1)), w'\<lparr>store := (store w')(k := None)\<rparr>))"

text \<open>The passing of \<open>t\<close> seconds with no command in between.\<close>

definition elapse :: "nat \<Rightarrow> world \<Rightarrow> world" where
  "elapse t w =
     w\<lparr>store := (\<lambda>k. case store w k of
                        None \<Rightarrow> None
                      | Some (v, None) \<Rightarrow> Some (v, None)
                      | Some (v, Some r) \<Rightarrow> if r \<le> t then None else Some (v, Some (r - t)))\<rparr>"

section \<open>Numbers and strings of JavaScript\<close>

text \<open>The decimal text of an integer: what the client sends for a number argument.\<close>

definition digit_char :: "nat \<Rightarrow> char" where
  "digit_char d = ''0123456789'' ! d"

fun digits :: "nat \<Rightarrow> string" where
  "digits n = (if n < 10 then [digit_char n] else digits (n div 10) @ [digit_char (n mod 10)])"

declare digits.simps [simp del]

definition number_string :: "int \<Rightarrow> string" where
  "number_string n = (if n < 0 then CHR ''-'' # digits (nat (- n)) else digits (nat n))"

text \<open>
  \<^verbatim>\<open>ToNumber\<close> on a string, on the fragment of optionally negated runs of decimal digits;
  \<open>None\<close> for every other string.
\<close>

definition digit_val :: "char \<Rightarrow> nat option" where
  "digit_val c =
     (let n = (of_char c :: nat) in if 48 \<le> n \<and> n \<le> 57 then Some (n - 48) else None)"

fun parse_digits :: "string \<Rightarrow> nat \<Rightarrow> nat option" where
  "parse_digits [] acc = Some acc"
| "parse_digits (c # cs) acc =
     (case digit_val c of None \<Rightarrow> None | Some d \<Rightarrow> parse_digits cs (acc * 10 + d))"

definition to_number :: "string \<Rightarrow> int option" where
  "to_number s =
     (case s of
        [] \<Rightarrow> None
      | c # cs \<Rightarrow>
          if c = CHR ''-'' then (if cs = [] then None else map_option (\<lambda>n. - int n) (parse_digits cs 0))
          else map_option int (parse_digits s 0))"

fun to_num :: "jsval \<Rightarrow> int option" where
  "to_num JNull = Some 0"
| "to_num (JBool b) = Some (if b then 1 else 0)"
| "to_num (JNum n) = Some n"
| "to_num (JStr s) = to_number s"
| "to_num (JArr xs) = None"

text \<open>\<^verbatim>\<open>!x\<close> is \<open>\<not> truthy x\<close>: \<^verbatim>\<open>null\<close>, \<^verbatim>\<open>false\<close>, \<^verbatim>\<open>0\<close> and the empty string are falsy.\<close>

fun truthy :: "jsval \<Rightarrow> bool" where
  "truthy JNull = False"
| "truthy (JBool b) = b"
| "truthy (JNum n) = (n \<noteq> 0)"
| "truthy (JStr s) = (s \<noteq> [])"
| "truthy (JArr xs) = True"

text \<open>\<^verbatim>\<open>a < b\<close> on two strings compares them code unit by code unit (on ASCII text,
  as the counters are, byte by byte).\<close>

fun str_lt :: "string \<Rightarrow> string \<Rightarrow> bool" where
  "str_lt [] [] = False"
| "str_lt [] (y # ys) = True"
| "str_lt (x # xs) [] = False"
| "str_lt (x # xs) (y # ys) =
     (if (of_char x :: nat) < of_char y then True
      else if (of_char y :: nat) < of_char x then False
      else str_lt xs ys)"

text \<open>\<^verbatim>\<open>a >= b\<close>: when both operands are strings the comparison is the one of strings,
  otherwise both are converted to numbers.\<close>

fun js_ge :: "jsval \<Rightarrow> jsval \<Rightarrow> bool option" where
  "js_ge (JStr a) (JStr b) = Some (\<not> str_lt a b)"
| "js_ge a b =
     (case to_num a of None \<Rightarrow> None
      | Some x \<Rightarrow> (case to_num b of None \<Rightarrow> None | Some y \<Rightarrow> Some (y \<le> x)))"

text \<open>\<^verbatim>\<open>a == n\<close> for a number \<open>n\<close>: a string operand is converted to a number,
  \<^verbatim>\<open>null\<close> equals no number.\<close>

fun js_eq_num :: "jsval \<Rightarrow> int \<Rightarrow> bool option" where
  "js_eq_num JNull n = Some False"
| "js_eq_num (JBool b) n = Some ((if b then 1 else 0) = n)"
| "js_eq_num (JNum m) n = Some (m = n)"
| "js_eq_num (JStr s) n = map_option (\<lambda>m. m = n) (to_number s)"
| "js_eq_num (JArr xs) n = None"

section \<open>The class AsyncApiQueue\<close>

text \<open>
  The static fields \<^verbatim>\<open>AsyncApiQueue.size\<close> and \<^verbatim>\<open>AsyncApiQueue.expiration\<close>, set by
  \<^verbatim>\<open>initialize\<close>. The two modules have the same methods with the same bodies, except
  \<^verbatim>\<open>setRedis\<close> (and the parameter list of \<^verbatim>\<open>initialize\<close>): \<open>Lib\<close> is
  \<^verbatim>\<open>src/lib/async-api-queue.js\<close>, \<open>Part000\<close> the class in \<^verbatim>\<open>src/unnamed/part_000\<close>,
  which never sets or reads \<^verbatim>\<open>expiration\<close>.
\<close>

record config =
  cfg_size :: int
  cfg_expiration :: nat

datatype variant = Lib | Part000

text \<open>The three wrappers turn the callback into a promise: an error rejects with that
  error, a reply resolves with that reply.\<close>

fun setRedis :: "variant \<Rightarrow> config \<Rightarrow> key \<Rightarrow> string \<Rightarrow> jsval io" where
  "setRedis Lib cfg k v = client_set k v (Some (cfg_expiration cfg))"
| "setRedis Part000 cfg k v = client_set k v None"

definition getRedis :: "key \<Rightarrow> jsval io" where
  "getRedis k = client_get k"

definition delRedis :: "key \<Rightarrow> jsval io" where
  "delRedis k = client_del k"

text \<open>\<^verbatim>\<open>setSize\<close> and \<^verbatim>\<open>setCount\<close> pass a number; the client sends its decimal text.\<close>

definition setSize :: "variant \<Rightarrow> config \<Rightarrow> int \<Rightarrow> jsval io" where
  "setSize v cfg n = setRedis v cfg ''QUEUE_SIZE'' (number_string n)"

definition setCount :: "variant \<Rightarrow> config \<Rightarrow> int \<Rightarrow> jsval io" where
  "setCount v cfg n = setRedis v cfg ''QUEUE_COUNT'' (number_string n)"

definition initializeRedis :: "variant \<Rightarrow> config \<Rightarrow> jsval io" where
  "initializeRedis v cfg = promise_all (setCount v cfg 0) (setSize v cfg (cfg_size cfg))"

text \<open>\<^verbatim>\<open>getSize\<close> and \<^verbatim>\<open>getCount\<close> are each split at their first \<^verbatim>\<open>await\<close>: the part
  after the reply is a function of the reply, so that \<^verbatim>\<open>isFullQueue\<close> can send both reads
  before either continues.\<close>

definition getSize_reply :: "variant \<Rightarrow> config \<Rightarrow> jsval \<Rightarrow> jsval io" where
  "getSize_reply v cfg sz =
     (if sz = JNull then await (initializeRedis v cfg) (\<lambda>_. resolve (JNum (cfg_size cfg)))
      else resolve sz)"

definition getSize :: "variant \<Rightarrow> config \<Rightarrow> jsval io" where
  "getSize v cfg = await (getRedis ''QUEUE_SIZE'') (getSize_reply v cfg)"

definition getCount_reply :: "variant \<Rightarrow> config \<Rightarrow> jsval \<Rightarrow> jsval io" where
  "getCount_reply v cfg sz =
     (if sz = JNull then await (initializeRedis v cfg) (\<lambda>_. resolve (JNum 0))
      else resolve sz)"

definition getCount :: "variant \<Rightarrow> config \<Rightarrow> jsval io" where
  "getCount v cfg = await (getRedis ''QUEUE_COUNT'') (getCount_reply v cfg)"

definition up1Count :: "variant \<Rightarrow> config \<Rightarrow> jsval io" where
  "up1Count v cfg =
     await (getCount v cfg) (\<lambda>count.
       case to_num count of
         None \<Rightarrow> reject OutsideModel
       | Some n \<Rightarrow> setCount v cfg (n + 1))"

definition down1Count :: "variant \<Rightarrow> config \<Rightarrow> jsval io" where
  "down1Count v cfg =
     await (getCount v cfg) (\<lambda>count.
       case to_num count of
         None \<Rightarrow> reject OutsideModel
       | Some n \<Rightarrow> setCount v cfg (if n > 0 then n - 1 else 0))"

text \<open>
  \<^verbatim>\<open>Promise.all([getCount(), getSize()])\<close>: both \<^verbatim>\<open>GET\<close>s are sent before a reply
  arrives, then \<^verbatim>\<open>getCount\<close> continues with its reply, then \<^verbatim>\<open>getSize\<close> with its own.
  \<^verbatim>\<open>Promise.all\<close> rejects with the rejection that comes first in time: a failed read of
  the count, a failed read of the size, a failure inside the continuation of
  \<^verbatim>\<open>getCount\<close>, one inside the continuation of \<^verbatim>\<open>getSize\<close>. A continuation whose sibling
  has rejected still runs.
\<close>

definition isFullQueue :: "variant \<Rightarrow> config \<Rightarrow> bool io" where
  "isFullQueue v cfg w =
     (case getRedis ''QUEUE_COUNT'' w of (r1, w1) \<Rightarrow>
     (case getRedis ''QUEUE_SIZE'' w1 of (r2, w2) \<Rightarrow>
     (case (case r1 of Inl e \<Rightarrow> (Inl e, w2) | Inr x \<Rightarrow> getCount_reply v cfg x w2) of (c, w3) \<Rightarrow>
     (case (case r2 of Inl e \<Rightarrow> (Inl e, w3) | Inr x \<Rightarrow> getSize_reply v cfg x w3) of (s, w4) \<Rightarrow>
        ((case r1 of Inl e \<Rightarrow> Inl e | Inr x1 \<Rightarrow>
         (case r2 of Inl e \<Rightarrow> Inl e | Inr x2 \<Rightarrow>
         (case c of Inl e \<Rightarrow> Inl e | Inr count \<Rightarrow>
         (case s of Inl e \<Rightarrow> Inl e | Inr sz \<Rightarrow>
         (case js_ge count sz of None \<Rightarrow> Inl OutsideModel | Some b \<Rightarrow> Inr b))))), w4)))))"

definition setRequest :: "variant \<Rightarrow> config \<Rightarrow> key \<Rightarrow> jsval io" where
  "setRequest v cfg k = setRedis v cfg k ''pending''"

definition QueueFull :: rejection where
  "QueueFull = Message ''no-of-request-is-at-limit''"

definition addRequest :: "variant \<Rightarrow> config \<Rightarrow> jsval io" where
  "addRequest v cfg =
     await (isFullQueue v cfg) (\<lambda>full.
       if full then reject QueueFull else up1Count v cfg)"

definition checkDone :: "key \<Rightarrow> jsval io" where
  "checkDone k =
     await (getRedis k) (\<lambda>result.
       resolve (if result = JStr ''pending'' then JBool False else result))"

text \<open>The reply of \<^verbatim>\<open>DEL\<close> is a number, so \<^verbatim>\<open>result == 1\<close> compares numbers; \<^verbatim>\<open>!isDone\<close>
  is true for \<^verbatim>\<open>false\<close> and for the empty string.\<close>

definition removeRequest :: "variant \<Rightarrow> config \<Rightarrow> key \<Rightarrow> jsval io" where
  "removeRequest v cfg k =
     await (checkDone k) (\<lambda>isDone.
       if isDone \<noteq> JNull then
         await (delRedis k) (\<lambda>result.
           if result = JNum 1 \<and> \<not> truthy isDone
           then await (down1Count v cfg) (\<lambda>_. resolve result)
           else resolve result)
       else resolve (JNum 0))"

text \<open>The listener registered by \<^verbatim>\<open>initialize\<close> logs the id; the log is kept.\<close>

definition emit :: "string \<Rightarrow> unit io" where
  "emit k w = (Inr (), w\<lparr>emitted := emitted w @ [k]\<rparr>)"

definition setDone :: "variant \<Rightarrow> config \<Rightarrow> key \<Rightarrow> string \<Rightarrow> jsval io" where
  "setDone v cfg k response =
     await (setRedis v cfg k response) (\<lambda>result.
       await (emit k) (\<lambda>_.
         await (down1Count v cfg) (\<lambda>_. resolve result)))"

text \<open>\<^verbatim>\<open>initialize\<close> sets the static fields and reconciles the persisted size with the
  configured one. \<open>Part000\<close> takes no expiration; its \<open>ex\<close> is never read.\<close>

definition initialize :: "variant \<Rightarrow> int \<Rightarrow> nat \<Rightarrow> config io" where
  "initialize v sz ex =
     (let cfg = \<lparr>cfg_size = sz, cfg_expiration = ex\<rparr> in
      await (getSize v cfg) (\<lambda>s.
        case js_eq_num s sz of
          None \<Rightarrow> reject OutsideModel
        | Some True \<Rightarrow> resolve cfg
        | Some False \<Rightarrow> await (initializeRedis v cfg) (\<lambda>_. resolve cfg)))"

text \<open>The public operations, and a run of them one after the other.\<close>

datatype op =
    AddRequest
  | SetRequest key
  | CheckDone key
  | SetDone key string
  | RemoveRequest key
  | GetSize
  | GetCount

fun run_op :: "variant \<Rightarrow> config \<Rightarrow> op \<Rightarrow> jsval io" where
  "run_op v cfg AddRequest = addRequest v cfg"
| "run_op v cfg (SetRequest k) = setRequest v cfg k"
| "run_op v cfg (CheckDone k) = checkDone k"
| "run_op v cfg (SetDone k r) = setDone v cfg k r"
| "run_op v cfg (RemoveRequest k) = removeRequest v cfg k"
| "run_op v cfg GetSize = getSize v cfg"
| "run_op v cfg GetCount = getCount v cfg"

fun run_ops :: "variant \<Rightarrow> config \<Rightarrow> op list \<Rightarrow> world \<Rightarrow> (rejection + jsval) list \<times> world" where
  "run_ops v cfg [] w = ([], w)"
| "run_ops v cfg (x # xs) w =
     (case run_op v cfg x w of (r, w') \<Rightarrow>
        (case run_ops v cfg xs w' of (rs, w'') \<Rightarrow> (r # rs, w'')))"

section \<open>Vocabulary of the statements\<close>

text \<open>The expiry that \<^verbatim>\<open>setRedis\<close> of each module attaches to a write.\<close>

fun expiry :: "variant \<Rightarrow> config \<Rightarrow> nat option" where
  "expiry Lib cfg = Some (cfg_expiration cfg)"
| "expiry Part000 cfg = None"

text \<open>The store after a successful \<^verbatim>\<open>initializeRedis\<close>: count 0, size as configured.\<close>

definition initialized :: "variant \<Rightarrow> config \<Rightarrow> world \<Rightarrow> world" where
  "initialized v cfg w =
     w\<lparr>store := (store w)(''QUEUE_COUNT'' \<mapsto> (''0'', expiry v cfg),
                             ''QUEUE_SIZE'' \<mapsto> (number_string (cfg_size cfg), expiry v cfg))\<rparr>"

text \<open>The persisted in-flight count, read as a number.\<close>

definition in_flight :: "world \<Rightarrow> int option" where
  "in_flight w = (case store w ''QUEUE_COUNT'' of None \<Rightarrow> None | Some (c, t) \<Rightarrow> to_number c)"

definition reserved :: "key \<Rightarrow> bool" where
  "reserved k = (k = ''QUEUE_COUNT'' \<or> k = ''QUEUE_SIZE'')"

text \<open>An empty store that answers every command.\<close>

definition fresh :: world where
  "fresh = \<lparr>store = (\<lambda>k. None), faults = [], emitted = []\<rparr>"

text \<open>The persisted count is absent or a number that is not negative.\<close>

definition count_ok :: "world \<Rightarrow> bool" where
  "count_ok w =
     (case store w ''QUEUE_COUNT'' of
        None \<Rightarrow> True
      | Some (c, t) \<Rightarrow> (case to_number c of None \<Rightarrow> False | Some n \<Rightarrow> 0 \<le> n))"

text \<open>A configuration and an initialized store for the examples.\<close>

definition cfg5 :: config where
  "cfg5 = \<lparr>cfg_size = 5, cfg_expiration = 60\<rparr>"

definition ready5 :: world where
  "ready5 = initialized Lib cfg5 fresh"

text \<open>The persisted size is absent or a number; both counters are in order.\<close>

definition size_ok :: "world \<Rightarrow> bool" where
  "size_ok w =
     (case store w ''QUEUE_SIZE'' of None \<Rightarrow> True | Some (s, t) \<Rightarrow> to_number s \<noteq> None)"

definition counters_ok :: "world \<Rightarrow> bool" where
  "counters_ok w = (count_ok w \<and> size_ok w)"

text \<open>An operation whose request id, if it has one, is not the name of a counter key.\<close>

fun plain_op :: "op \<Rightarrow> bool" where
  "plain_op AddRequest = True"
| "plain_op (SetRequest k) = (\<not> reserved k)"
| "plain_op (CheckDone k) = (\<not> reserved k)"
| "plain_op (SetDone k r) = (\<not> reserved k)"
| "plain_op (RemoveRequest k) = (\<not> reserved k)"
| "plain_op GetSize = True"
| "plain_op GetCount = True"

text \<open>
  Pre- and postconditions over every schedule of failures. \<open>stable F c\<close> says that the
  failures still scheduled lie in \<open>F\<close> and, when \<open>c\<close> is set, that the counters are in
  order; \<open>fine F c v cfg r\<close> says that a rejection \<open>r\<close> is a scheduled failure (or the
  refusal of a zero expiry), never a message, and not \<open>OutsideModel\<close> when \<open>c\<close> is set.
\<close>

definition triple :: "(world \<Rightarrow> bool) \<Rightarrow> 'a io \<Rightarrow> (rejection + 'a \<Rightarrow> world \<Rightarrow> bool) \<Rightarrow> bool" where
  "triple P m Q = (\<forall>w. P w \<longrightarrow> Q (fst (m w)) (snd (m w)))"

definition stable :: "store_error option set \<Rightarrow> bool \<Rightarrow> world \<Rightarrow> bool" where
  "stable F c w = ((c \<longrightarrow> counters_ok w) \<and> set (faults w) \<subseteq> F)"

definition fine :: "store_error option set \<Rightarrow> bool \<Rightarrow> variant \<Rightarrow> config \<Rightarrow> rejection + 'a \<Rightarrow> bool" where
  "fine F c v cfg r =
     (case r of
        Inr x \<Rightarrow> True
      | Inl (StoreError e) \<Rightarrow> Some e \<in> F \<or> (expiry v cfg = Some 0 \<and> e = InvalidExpire)
      | Inl (Message m) \<Rightarrow> False
      | Inl OutsideModel \<Rightarrow> \<not> c)"

definition post ::
  "store_error option set \<Rightarrow> bool \<Rightarrow> variant \<Rightarrow> config \<Rightarrow> ('a \<Rightarrow> bool) \<Rightarrow> rejection + 'a \<Rightarrow> world \<Rightarrow> bool" where
  "post F c v cfg A r w = (stable F c w \<and> fine F c v cfg r \<and> (\<forall>x. r = Inr x \<longrightarrow> A x))"

definition count_val :: "jsval \<Rightarrow> bool" where
  "count_val x = (case to_num x of None \<Rightarrow> False | Some n \<Rightarrow> 0 \<le> n)"

definition size_val :: "jsval \<Rightarrow> bool" where
  "size_val x = (to_num x \<noteq> None)"


definition admitted :: "store_error option set \<Rightarrow> bool \<Rightarrow> variant \<Rightarrow> config \<Rightarrow> op \<Rightarrow> rejection + jsval \<Rightarrow> world \<Rightarrow> bool" where
  "admitted F c v cfg x r w =
     (stable F c w \<and> ((r = Inl QueueFull \<and> x = AddRequest) \<or> fine F c v cfg r))"

text \<open>
  Comparing the two modules: \<open>forget\<close> drops the seconds to live of every key, and two
  computations are \<open>alike\<close> when, from stores that agree once the expiries are dropped
  (and with the same failures scheduled), they give the same result and end in stores that
  agree in the same way.
\<close>

definition forget :: "world \<Rightarrow> world" where
  "forget w = w\<lparr>store := (\<lambda>k. map_option (\<lambda>e. (fst e, None)) (store w k))\<rparr>"

definition alike :: "'a io \<Rightarrow> 'a io \<Rightarrow> bool" where
  "alike m1 m2 =
     (\<forall>w1 w2. forget w1 = forget w2 \<longrightarrow>
        fst (m1 w1) = fst (m2 w2) \<and> forget (snd (m1 w1)) = forget (snd (m2 w2)))"

text \<open>
  \<open>clean fs w\<close>: of the schedule \<open>fs\<close>, what has been used up before \<open>w\<close> were successes
  only. A computation is \<open>unmasked\<close> when it resolves only if every command it sent
  succeeded.
\<close>

definition clean :: "store_error option list \<Rightarrow> world \<Rightarrow> bool" where
  "clean fs w = (\<exists>n. fs = replicate n None @ faults w)"


text \<open>
  A run in which time passes between the operations: \<open>Wait t\<close> lets \<open>t\<close> seconds go by.
  \<open>survives t w\<close> says that no key of \<open>w\<close> runs out within \<open>t\<close> seconds, and
  \<open>nothing_expires\<close> that this holds at every \<open>Wait\<close> of the run.
\<close>

datatype step = Op op | Wait nat

fun run_steps :: "variant \<Rightarrow> config \<Rightarrow> step list \<Rightarrow> world \<Rightarrow> (rejection + jsval) list \<times> world" where
  "run_steps v cfg [] w = ([], w)"
| "run_steps v cfg (Op x # xs) w =
     (case run_op v cfg x w of (r, w') \<Rightarrow>
        (case run_steps v cfg xs w' of (rs, w'') \<Rightarrow> (r # rs, w'')))"
| "run_steps v cfg (Wait t # xs) w = run_steps v cfg xs (elapse t w)"

definition survives :: "nat \<Rightarrow> world \<Rightarrow> bool" where
  "survives t w =
     (\<forall>k. case store w k of
             None \<Rightarrow> True
           | Some (x, None) \<Rightarrow> True
           | Some (x, Some r) \<Rightarrow> t < r)"

fun nothing_expires :: "variant \<Rightarrow> config \<Rightarrow> step list \<Rightarrow> world \<Rightarrow> bool" where
  "nothing_expires v cfg [] w = True"
| "nothing_expires v cfg (Op x # xs) w = nothing_expires v cfg xs (snd (run_op v cfg x w))"
| "nothing_expires v cfg (Wait t # xs) w =
     (survives t w \<and> nothing_expires v cfg xs (elapse t w))"

text \<open>A configuration of capacity 1 for the examples.\<close>

definition cfg1 :: config where
  "cfg1 = \<lparr>cfg_size = 1, cfg_expiration = 60\<rparr>"

section \<open>Decimal text and back\<close>

lemma digit_val_digit_char_all: "\<forall>d \<in> set [0..<10]. digit_val (digit_char d) = Some d"
  by code_simp

lemma digit_val_digit_char: "d < 10 \<Longrightarrow> digit_val (digit_char d) = Some d"
  using digit_val_digit_char_all by simp

lemma parse_digits_append:
  "parse_digits (xs @ ys) acc =
     (case parse_digits xs acc of None \<Rightarrow> None | Some a \<Rightarrow> parse_digits ys a)"
  by (induction xs arbitrary: acc) (auto split: option.splits)

lemma parse_digits_digits: "parse_digits (digits n) 0 = Some n"
proof (induction n rule: digits.induct)
  case (1 n)
  show ?case
  proof (cases "n < 10")
    case True
    then show ?thesis by (simp add: digits.simps [of n] digit_val_digit_char)
  next
    case False
    with 1 have "parse_digits (digits (n div 10)) 0 = Some (n div 10)" by simp
    with False show ?thesis
      by (simp add: digits.simps [of n] parse_digits_append digit_val_digit_char)
  qed
qed

lemma digits_not_Nil: "digits n \<noteq> []"
  by (subst digits.simps) simp

lemma digit_val_minus: "digit_val (CHR ''-'') = None"
  by (simp add: digit_val_def)

lemma to_number_digits: "to_number (digits n) = Some (int n)"
proof (cases "digits n")
  case Nil
  then show ?thesis by (simp add: digits_not_Nil)
next
  case (Cons c cs)
  have p: "parse_digits (c # cs) 0 = Some n"
    using parse_digits_digits [of n] Cons by simp
  then have "c \<noteq> CHR ''-''"
    by (auto simp: digit_val_minus split: option.splits)
  with p Cons show ?thesis by (simp add: to_number_def)
qed

lemma to_number_number_string: "to_number (number_string n) = Some n"
proof (cases "n < 0")
  case True
  then show ?thesis
    by (simp add: number_string_def to_number_def digits_not_Nil parse_digits_digits)
next
  case False
  then show ?thesis by (simp add: number_string_def to_number_digits)
qed

lemma number_string_0: "number_string 0 = ''0''"
  by (simp add: number_string_def digits.simps digit_char_def)

section \<open>The operations while the store answers\<close>

lemma setRedis_expiry: "setRedis v cfg k x = client_set k x (expiry v cfg)"
  by (cases v) simp_all

lemma getRedis_ok:
  "faults w = [] \<Longrightarrow>
   getRedis k w = (Inr (case store w k of None \<Rightarrow> JNull | Some (x, t) \<Rightarrow> JStr x), w)"
  by (simp add: getRedis_def client_get_def next_fault_def)

lemma setRedis_ok:
  "faults w = [] \<Longrightarrow> expiry v cfg \<noteq> Some 0 \<Longrightarrow>
   setRedis v cfg k x w = (Inr (JStr ''OK''), w\<lparr>store := (store w)(k \<mapsto> (x, expiry v cfg))\<rparr>)"
  by (simp add: setRedis_expiry client_set_def next_fault_def)

lemma delRedis_ok:
  "faults w = [] \<Longrightarrow>
   delRedis k w =
     (Inr (JNum (if store w k = None then 0 else 1)), w\<lparr>store := (store w)(k := None)\<rparr>)"
  by (simp add: delRedis_def client_del_def next_fault_def)

lemma initializeRedis_ok:
  "faults w = [] \<Longrightarrow> expiry v cfg \<noteq> Some 0 \<Longrightarrow>
   initializeRedis v cfg w = (Inr (JArr [JStr ''OK'', JStr ''OK'']), initialized v cfg w)"
  by (simp add: initializeRedis_def promise_all_def setCount_def setSize_def setRedis_ok
      initialized_def number_string_0)

lemma faults_initialized [simp]: "faults (initialized v cfg w) = faults w"
  by (simp add: initialized_def)

lemma getCount_absent:
  "faults w = [] \<Longrightarrow> expiry v cfg \<noteq> Some 0 \<Longrightarrow> store w ''QUEUE_COUNT'' = None \<Longrightarrow>
   getCount v cfg w = (Inr (JNum 0), initialized v cfg w)"
  by (simp add: getCount_def getCount_reply_def await_def getRedis_ok initializeRedis_ok
      resolve_def)

lemma getCount_present:
  "faults w = [] \<Longrightarrow> store w ''QUEUE_COUNT'' = Some (c, t) \<Longrightarrow>
   getCount v cfg w = (Inr (JStr c), w)"
  by (simp add: getCount_def getCount_reply_def await_def getRedis_ok resolve_def)

lemma getSize_absent:
  "faults w = [] \<Longrightarrow> expiry v cfg \<noteq> Some 0 \<Longrightarrow> store w ''QUEUE_SIZE'' = None \<Longrightarrow>
   getSize v cfg w = (Inr (JNum (cfg_size cfg)), initialized v cfg w)"
  by (simp add: getSize_def getSize_reply_def await_def getRedis_ok initializeRedis_ok
      resolve_def)

lemma getSize_present:
  "faults w = [] \<Longrightarrow> store w ''QUEUE_SIZE'' = Some (s, t) \<Longrightarrow>
   getSize v cfg w = (Inr (JStr s), w)"
  by (simp add: getSize_def getSize_reply_def await_def getRedis_ok resolve_def)

lemma up1Count_present:
  "faults w = [] \<Longrightarrow> expiry v cfg \<noteq> Some 0 \<Longrightarrow> store w ''QUEUE_COUNT'' = Some (c, t) \<Longrightarrow>
   to_number c = Some n \<Longrightarrow>
   up1Count v cfg w =
     (Inr (JStr ''OK''),
      w\<lparr>store := (store w)(''QUEUE_COUNT'' \<mapsto> (number_string (n + 1), expiry v cfg))\<rparr>)"
  by (simp add: up1Count_def await_def getCount_present setCount_def setRedis_ok)

lemma down1Count_present:
  "faults w = [] \<Longrightarrow> expiry v cfg \<noteq> Some 0 \<Longrightarrow> store w ''QUEUE_COUNT'' = Some (c, t) \<Longrightarrow>
   to_number c = Some n \<Longrightarrow>
   down1Count v cfg w =
     (Inr (JStr ''OK''),
      w\<lparr>store := (store w)(''QUEUE_COUNT'' \<mapsto>
           (number_string (if n > 0 then n - 1 else 0), expiry v cfg))\<rparr>)"
  by (simp add: down1Count_def await_def getCount_present setCount_def setRedis_ok)

lemma isFullQueue_present:
  "faults w = [] \<Longrightarrow> store w ''QUEUE_COUNT'' = Some (c, t) \<Longrightarrow>
   store w ''QUEUE_SIZE'' = Some (s, t') \<Longrightarrow>
   isFullQueue v cfg w = (Inr (\<not> str_lt c s), w)"
  by (simp add: isFullQueue_def getRedis_ok getCount_reply_def getSize_reply_def resolve_def)

lemma checkDone_ok:
  "faults w = [] \<Longrightarrow>
   checkDone k w =
     (Inr (case store w k of None \<Rightarrow> JNull
           | Some (x, t) \<Rightarrow> if x = ''pending'' then JBool False else JStr x), w)"
  by (simp add: checkDone_def await_def getRedis_ok resolve_def split: option.splits)

lemmas run_defs =
  resolve_def reject_def await_def promise_all_def next_fault_def client_get_def
  client_set_def client_del_def getRedis_def delRedis_def setSize_def setCount_def
  initializeRedis_def getSize_reply_def getSize_def getCount_reply_def getCount_def
  up1Count_def down1Count_def isFullQueue_def setRequest_def addRequest_def checkDone_def
  removeRequest_def emit_def setDone_def initialize_def QueueFull_def
  number_string_def digits.simps digit_char_def to_number_def digit_val_def
  in_flight_def initialized_def fresh_def Let_def

section \<open>Admission\<close>

lemma addRequest_present:
  assumes "faults w = []" and "expiry v cfg \<noteq> Some 0"
    and "store w ''QUEUE_COUNT'' = Some (c, t)" and "store w ''QUEUE_SIZE'' = Some (s, t')"
    and "to_number c = Some n"
  shows "addRequest v cfg w =
     (if str_lt c s
      then (Inr (JStr ''OK''),
            w\<lparr>store := (store w)(''QUEUE_COUNT'' \<mapsto> (number_string (n + 1), expiry v cfg))\<rparr>)
      else (Inl QueueFull, w))"
  using assms
  by (simp add: addRequest_def await_def isFullQueue_present up1Count_present reject_def)

lemma text_order_digits:
  "\<forall>a \<in> set [0..<10]. \<forall>b \<in> set [0..<10]. str_lt (digits a) (digits b) = (a < b)"
  by code_simp

lemma addRequest_one_digit:
  assumes "faults w = []" and "expiry v cfg \<noteq> Some 0"
    and "store w ''QUEUE_COUNT'' = Some (number_string n, t)"
    and "store w ''QUEUE_SIZE'' = Some (number_string c, t')"
    and "0 \<le> n" and "n \<le> 9" and "0 \<le> c" and "c \<le> 9"
  shows "fst (addRequest v cfg w) = Inl QueueFull \<longleftrightarrow> c \<le> n"
proof -
  have "nat n \<in> set [0..<10]" "nat c \<in> set [0..<10]" using assms(5-8) by auto
  with text_order_digits have "str_lt (digits (nat n)) (digits (nat c)) = (nat n < nat c)"
    by blast
  then have "str_lt (number_string n) (number_string c) = (n < c)"
    using assms(5,7) by (auto simp: number_string_def)
  then show ?thesis
    using addRequest_present [OF assms(1-4) to_number_number_string]
    by (auto simp: QueueFull_def)
qed

text \<open>
  Claim C1. The first \<open>c\<close> calls of \<^verbatim>\<open>addRequest\<close> from an initialized store of
  capacity \<open>c\<close> succeed and the next one is rejected; \<^verbatim>\<open>addRequest\<close> rejects exactly when
  the in-flight count has reached the capacity.

  The code does not do so once the capacity has two digits. Both counters come back from
  the store as strings, and \<^verbatim>\<open>count >= size\<close> on two strings compares text: with capacity
  10 the store is initialized to count \<open>''0''\<close> and size \<open>''10''\<close>, two reservations are
  admitted, and the third is rejected with two requests in flight, because \<open>''2''\<close> is not
  below \<open>''10''\<close> as text. The theorem runs the code on that input. (While count and
  capacity have one digit the comparison of text agrees with the one of numbers, lemma
  \<open>addRequest_one_digit\<close>; lemma \<open>addRequest_present\<close> is what the code does in general.)
\<close>

theorem addRequest_capacity_10:
  "(case initialize Lib 10 60 fresh of (r0, w0) \<Rightarrow>
    (case addRequest Lib \<lparr>cfg_size = 10, cfg_expiration = 60\<rparr> w0 of (r1, w1) \<Rightarrow>
    (case addRequest Lib \<lparr>cfg_size = 10, cfg_expiration = 60\<rparr> w1 of (r2, w2) \<Rightarrow>
    (case addRequest Lib \<lparr>cfg_size = 10, cfg_expiration = 60\<rparr> w2 of (r3, w3) \<Rightarrow>
       r0 = Inr \<lparr>cfg_size = 10, cfg_expiration = 60\<rparr>
     \<and> store w0 ''QUEUE_COUNT'' = Some (''0'', Some 60)
     \<and> store w0 ''QUEUE_SIZE'' = Some (''10'', Some 60)
     \<and> r1 = Inr (JStr ''OK'') \<and> r2 = Inr (JStr ''OK'')
     \<and> in_flight w2 = Some 2
     \<and> r3 = Inl QueueFull \<and> w3 = w2))))"
  by (simp add: run_defs)

section \<open>The getters\<close>

text \<open>
  Claim C8. When the key \<^verbatim>\<open>QUEUE_SIZE\<close> is absent, \<^verbatim>\<open>getSize\<close> writes count 0 and the
  configured size and returns the configured size; when \<^verbatim>\<open>QUEUE_COUNT\<close> is absent,
  \<^verbatim>\<open>getCount\<close> does the same writes and returns 0; when both keys are present neither
  getter writes, and each returns the persisted value. Stated for both modules, while the
  store answers.
\<close>

theorem getters_initialize:
  assumes "faults w = []" and "expiry v cfg \<noteq> Some 0"
  shows "(store w ''QUEUE_SIZE'' = None \<longrightarrow>
            getSize v cfg w = (Inr (JNum (cfg_size cfg)), initialized v cfg w))
       \<and> (store w ''QUEUE_COUNT'' = None \<longrightarrow>
            getCount v cfg w = (Inr (JNum 0), initialized v cfg w))
       \<and> (\<forall>s t c t'. store w ''QUEUE_SIZE'' = Some (s, t) \<and> store w ''QUEUE_COUNT'' = Some (c, t') \<longrightarrow>
            getSize v cfg w = (Inr (JStr s), w) \<and> getCount v cfg w = (Inr (JStr c), w))"
  using assms by (simp add: getSize_absent getCount_absent getSize_present getCount_present)

theorem getters_initialize_witness:
  "faults fresh = [] \<and> expiry Lib \<lparr>cfg_size = 5, cfg_expiration = 60\<rparr> \<noteq> Some 0
   \<and> store fresh ''QUEUE_SIZE'' = None \<and> store fresh ''QUEUE_COUNT'' = None
   \<and> getSize Lib \<lparr>cfg_size = 5, cfg_expiration = 60\<rparr> fresh =
       (Inr (JNum 5), initialized Lib \<lparr>cfg_size = 5, cfg_expiration = 60\<rparr> fresh)
   \<and> getCount Lib \<lparr>cfg_size = 5, cfg_expiration = 60\<rparr> fresh =
       (Inr (JNum 0), initialized Lib \<lparr>cfg_size = 5, cfg_expiration = 60\<rparr> fresh)
   \<and> store (initialized Lib \<lparr>cfg_size = 5, cfg_expiration = 60\<rparr> fresh) ''QUEUE_SIZE''
       = Some (''5'', Some 60)
   \<and> store (initialized Lib \<lparr>cfg_size = 5, cfg_expiration = 60\<rparr> fresh) ''QUEUE_COUNT''
       = Some (''0'', Some 60)
   \<and> getSize Lib \<lparr>cfg_size = 5, cfg_expiration = 60\<rparr>
       (initialized Lib \<lparr>cfg_size = 5, cfg_expiration = 60\<rparr> fresh) =
       (Inr (JStr ''5''), initialized Lib \<lparr>cfg_size = 5, cfg_expiration = 60\<rparr> fresh)
   \<and> getCount Lib \<lparr>cfg_size = 5, cfg_expiration = 60\<rparr>
       (initialized Lib \<lparr>cfg_size = 5, cfg_expiration = 60\<rparr> fresh) =
       (Inr (JStr ''0''), initialized Lib \<lparr>cfg_size = 5, cfg_expiration = 60\<rparr> fresh)"
proof -
  let ?c = "\<lparr>cfg_size = 5, cfg_expiration = 60\<rparr>"
  have f: "faults fresh = []" by (simp add: fresh_def)
  have f': "faults (initialized Lib ?c fresh) = []" by (simp add: fresh_def)
  have e: "expiry Lib ?c \<noteq> Some 0" by simp
  have a: "store fresh ''QUEUE_SIZE'' = None \<and> store fresh ''QUEUE_COUNT'' = None"
    by (simp add: fresh_def)
  have b: "store (initialized Lib ?c fresh) ''QUEUE_SIZE'' = Some (''5'', Some 60)
         \<and> store (initialized Lib ?c fresh) ''QUEUE_COUNT'' = Some (''0'', Some 60)"
    by (simp add: initialized_def fresh_def number_string_def digits.simps digit_char_def)
  show ?thesis
    using getters_initialize [OF f e] getters_initialize [OF f' e] a b f by simp
qed

section \<open>Reserve, mark pending, mark done\<close>

lemma initialized_idem: "initialized v cfg (initialized v cfg w) = initialized v cfg w"
  by (simp add: initialized_def)

lemma store_initialized_count:
  "store (initialized v cfg w) ''QUEUE_COUNT'' = Some (''0'', expiry v cfg)"
  by (simp add: initialized_def)

lemma store_initialized_size:
  "store (initialized v cfg w) ''QUEUE_SIZE'' = Some (number_string (cfg_size cfg), expiry v cfg)"
  by (simp add: initialized_def)

lemma store_initialized_other: "\<not> reserved k \<Longrightarrow> store (initialized v cfg w) k = store w k"
  by (simp add: initialized_def reserved_def)

lemma to_number_0: "to_number ''0'' = Some 0"
  using to_number_number_string [of 0] by (simp add: number_string_0)

lemma isFullQueue_world:
  assumes "faults w = []" and "expiry v cfg \<noteq> Some 0"
  shows "snd (isFullQueue v cfg w) =
     (if store w ''QUEUE_COUNT'' = None \<or> store w ''QUEUE_SIZE'' = None
      then initialized v cfg w else w)"
  using assms
  by (auto simp: isFullQueue_def getRedis_ok getCount_reply_def getSize_reply_def resolve_def
      await_def initializeRedis_ok initialized_idem split: option.splits)

lemma addRequest_success:
  assumes "faults w = []" and "expiry v cfg \<noteq> Some 0" and "count_ok w"
    and "addRequest v cfg w = (Inr r, w1)"
  shows "\<exists>m u. 1 \<le> m
            \<and> w1 = u\<lparr>store := (store u)(''QUEUE_COUNT'' \<mapsto> (number_string m, expiry v cfg))\<rparr>
            \<and> faults u = [] \<and> (\<forall>k. \<not> reserved k \<longrightarrow> store u k = store w k)"
proof -
  let ?u = "snd (isFullQueue v cfg w)"
  have u: "?u = (if store w ''QUEUE_COUNT'' = None \<or> store w ''QUEUE_SIZE'' = None
      then initialized v cfg w else w)"
    using assms(1,2) by (rule isFullQueue_world)
  then have fu: "faults ?u = []" using assms(1) by simp
  have other: "\<forall>k. \<not> reserved k \<longrightarrow> store ?u k = store w k"
    using u by (simp add: store_initialized_other)
  obtain c t n where c: "store ?u ''QUEUE_COUNT'' = Some (c, t)" "to_number c = Some n" "0 \<le> n"
  proof (cases "store w ''QUEUE_COUNT'' = None \<or> store w ''QUEUE_SIZE'' = None")
    case True
    then have "store ?u ''QUEUE_COUNT'' = Some (''0'', expiry v cfg)"
      using u by (simp add: store_initialized_count)
    then show ?thesis using that to_number_0 by simp
  next
    case False
    then have "?u = w" using u by auto
    moreover from False assms(3) obtain c t n
      where "store w ''QUEUE_COUNT'' = Some (c, t)" "to_number c = Some n" "0 \<le> n"
      by (auto simp: count_ok_def split: option.splits)
    ultimately show ?thesis using that by simp
  qed
  from assms(4) have "up1Count v cfg ?u = (Inr r, w1)"
    by (cases "isFullQueue v cfg w")
       (auto simp: addRequest_def await_def reject_def split: sum.splits if_splits)
  then have "w1 = ?u\<lparr>store := (store ?u)(''QUEUE_COUNT'' \<mapsto>
                 (number_string (n + 1), expiry v cfg))\<rparr>"
    using up1Count_present [OF fu assms(2) c(1,2)] by simp
  with c(3) fu other show ?thesis
    by (intro exI [of _ "n + 1"] exI [of _ ?u]) simp
qed

lemma setDone_ok:
  assumes "faults w = []" and "expiry v cfg \<noteq> Some 0" and "k \<noteq> ''QUEUE_COUNT''"
    and "in_flight w = Some n"
  shows "setDone v cfg k p w =
     (Inr (JStr ''OK''),
      w\<lparr>store := (store w)(k \<mapsto> (p, expiry v cfg),
            ''QUEUE_COUNT'' \<mapsto> (number_string (max 0 (n - 1)), expiry v cfg)),
        emitted := emitted w @ [k]\<rparr>)"
proof -
  from assms(4) obtain c t where c: "store w ''QUEUE_COUNT'' = Some (c, t)" "to_number c = Some n"
    by (auto simp: in_flight_def split: option.splits)
  let ?w1 = "w\<lparr>store := (store w)(k \<mapsto> (p, expiry v cfg)), emitted := emitted w @ [k]\<rparr>"
  have "down1Count v cfg ?w1 = (Inr (JStr ''OK''),
      ?w1\<lparr>store := (store ?w1)(''QUEUE_COUNT'' \<mapsto>
              (number_string (if n > 0 then n - 1 else 0), expiry v cfg))\<rparr>)"
    using assms(1,2,3) c by (intro down1Count_present) auto
  moreover have "(if n > 0 then n - 1 else 0) = max 0 (n - 1)" by simp
  ultimately show ?thesis
    using assms(1,2) by (simp add: setDone_def await_def setRedis_ok emit_def resolve_def)
qed

lemma in_flight_upd:
  "in_flight (w\<lparr>store := (store w)(''QUEUE_COUNT'' \<mapsto> (number_string m, t))\<rparr>) = Some m"
  by (simp add: in_flight_def to_number_number_string)

text \<open>
  Claim C2, amended. For every request id other than the two counter keys and every
  payload other than the text \<open>''pending''\<close>: after a successful \<^verbatim>\<open>addRequest\<close>,
  \<^verbatim>\<open>setRequest\<close> of the id and \<^verbatim>\<open>setDone\<close> of the id with the payload, \<^verbatim>\<open>checkDone\<close>
  returns the payload, and the in-flight count is one less than right after the
  \<^verbatim>\<open>addRequest\<close>. In between, \<^verbatim>\<open>checkDone\<close> returns \<^verbatim>\<open>false\<close> (pending).
\<close>

theorem reserve_pending_done:
  assumes "faults w = []" and "expiry v cfg \<noteq> Some 0" and "count_ok w"
    and "\<not> reserved k" and "payload \<noteq> ''pending''"
    and "addRequest v cfg w = (Inr r, w1)"
  shows "\<exists>m. 1 \<le> m \<and> in_flight w1 = Some m \<and>
          (case setRequest v cfg k w1 of (r2, w2) \<Rightarrow>
             r2 = Inr (JStr ''OK'') \<and> fst (checkDone k w2) = Inr (JBool False) \<and>
             (case setDone v cfg k payload w2 of (r3, w3) \<Rightarrow>
                r3 = Inr (JStr ''OK'') \<and> fst (checkDone k w3) = Inr (JStr payload) \<and>
                in_flight w3 = Some (m - 1)))"
proof -
  from addRequest_success [OF assms(1,2,3,6)] obtain m u where
    m: "1 \<le> m"
    and w1: "w1 = u\<lparr>store := (store u)(''QUEUE_COUNT'' \<mapsto> (number_string m, expiry v cfg))\<rparr>"
    and fu: "faults u = []" by blast
  have k: "k \<noteq> ''QUEUE_COUNT''" using assms(4) by (simp add: reserved_def)
  have f1: "faults w1 = []" using w1 fu by simp
  have i1: "in_flight w1 = Some m" using w1 by (simp add: in_flight_upd)
  let ?w2 = "w1\<lparr>store := (store w1)(k \<mapsto> (''pending'', expiry v cfg))\<rparr>"
  have s2: "setRequest v cfg k w1 = (Inr (JStr ''OK''), ?w2)"
    using f1 assms(2) by (simp add: setRequest_def setRedis_ok)
  have f2: "faults ?w2 = []" using f1 by simp
  have i2: "in_flight ?w2 = Some m" using i1 k by (simp add: in_flight_def)
  have c2: "fst (checkDone k ?w2) = Inr (JBool False)" using f2 by (simp add: checkDone_ok)
  let ?w3 = "?w2\<lparr>store := (store ?w2)(k \<mapsto> (payload, expiry v cfg),
            ''QUEUE_COUNT'' \<mapsto> (number_string (max 0 (m - 1)), expiry v cfg)),
        emitted := emitted ?w2 @ [k]\<rparr>"
  have s3: "setDone v cfg k payload ?w2 = (Inr (JStr ''OK''), ?w3)"
    using f2 assms(2) k i2 by (rule setDone_ok)
  have f3: "faults ?w3 = []" using f2 by simp
  have c3: "fst (checkDone k ?w3) = Inr (JStr payload)"
    using f3 k assms(5) by (simp add: checkDone_ok)
  have i3: "in_flight ?w3 = Some (m - 1)"
    using m by (simp add: in_flight_def to_number_number_string max_def)
  show ?thesis
    using m i1 s2 c2 s3 c3 i3 by (intro exI [of _ m]) simp
qed

lemmas ex_defs = run_defs cfg5_def ready5_def count_ok_def reserved_def

theorem reserve_pending_done_witness:
  "faults ready5 = [] \<and> expiry Lib cfg5 \<noteq> Some 0 \<and> count_ok ready5 \<and> \<not> reserved ''a''
   \<and> ''ok'' \<noteq> ''pending''
   \<and> fst (addRequest Lib cfg5 ready5) = Inr (JStr ''OK'')
   \<and> (\<exists>m. 1 \<le> m \<and> in_flight (snd (addRequest Lib cfg5 ready5)) = Some m \<and>
          (case setRequest Lib cfg5 ''a'' (snd (addRequest Lib cfg5 ready5)) of (r2, w2) \<Rightarrow>
             r2 = Inr (JStr ''OK'') \<and> fst (checkDone ''a'' w2) = Inr (JBool False) \<and>
             (case setDone Lib cfg5 ''a'' ''ok'' w2 of (r3, w3) \<Rightarrow>
                r3 = Inr (JStr ''OK'') \<and> fst (checkDone ''a'' w3) = Inr (JStr ''ok'') \<and>
                in_flight w3 = Some (m - 1))))"
proof -
  have h1: "faults ready5 = []" by (simp add: ex_defs)
  have h2: "expiry Lib cfg5 \<noteq> Some 0" by (simp add: ex_defs)
  have h3: "count_ok ready5" by (simp add: ex_defs)
  have h4: "\<not> reserved ''a''" by (simp add: ex_defs)
  have h5: "''ok'' \<noteq> ''pending''" by simp
  have h6: "fst (addRequest Lib cfg5 ready5) = Inr (JStr ''OK'')" by (simp add: ex_defs)
  then have h7: "addRequest Lib cfg5 ready5 = (Inr (JStr ''OK''), snd (addRequest Lib cfg5 ready5))"
    by (metis prod.collapse)
  show ?thesis
    using reserve_pending_done [OF h1 h2 h3 h4 h5 h7] h1 h2 h3 h4 h5 h6 by blast
qed

text \<open>
  The claim as stated, for every id and every payload, fails twice. With the payload
  \<open>''pending''\<close>, \<^verbatim>\<open>checkDone\<close> after \<^verbatim>\<open>setDone\<close> returns \<^verbatim>\<open>false\<close>, the answer for a
  pending slot. With the request id \<open>''QUEUE_COUNT''\<close> and the payload \<open>''7''\<close>, the slot
  is the counter itself: \<^verbatim>\<open>setDone\<close> stores 7 there and decrements it, \<^verbatim>\<open>checkDone\<close>
  returns \<open>''6''\<close>, and the count has gone from 1 after the reservation to 6.
\<close>

theorem reserve_pending_done_counterexample:
  "fst (run_ops Lib cfg5
        [AddRequest, SetRequest ''a'', SetDone ''a'' ''pending'', CheckDone ''a''] ready5)
     = [Inr (JStr ''OK''), Inr (JStr ''OK''), Inr (JStr ''OK''), Inr (JBool False)]
   \<and> Inr (JBool False) \<noteq> (Inr (JStr ''pending'') :: rejection + jsval)
   \<and> fst (run_ops Lib cfg5 [AddRequest, SetRequest ''QUEUE_COUNT'', SetDone ''QUEUE_COUNT'' ''7'',
        CheckDone ''QUEUE_COUNT''] ready5)
     = [Inr (JStr ''OK''), Inr (JStr ''OK''), Inr (JStr ''OK''), Inr (JStr ''6'')]
   \<and> in_flight (snd (run_ops Lib cfg5 [AddRequest] ready5)) = Some 1
   \<and> in_flight (snd (run_ops Lib cfg5 [AddRequest, SetRequest ''QUEUE_COUNT'',
        SetDone ''QUEUE_COUNT'' ''7''] ready5)) = Some 6"
  by (simp add: ex_defs)

section \<open>Removal\<close>

lemma removeRequest_absent:
  "faults w = [] \<Longrightarrow> store w k = None \<Longrightarrow> removeRequest v cfg k w = (Inr (JNum 0), w)"
  by (simp add: removeRequest_def await_def checkDone_ok resolve_def)

lemma removeRequest_done:
  "faults w = [] \<Longrightarrow> store w k = Some (p, t) \<Longrightarrow> p \<noteq> ''pending'' \<Longrightarrow> p \<noteq> [] \<Longrightarrow>
   removeRequest v cfg k w = (Inr (JNum 1), w\<lparr>store := (store w)(k := None)\<rparr>)"
  by (simp add: removeRequest_def await_def checkDone_ok delRedis_ok resolve_def)

lemma removeRequest_pending:
  assumes "faults w = []" and "expiry v cfg \<noteq> Some 0" and "k \<noteq> ''QUEUE_COUNT''"
    and "store w k = Some (''pending'', t)" and "in_flight w = Some n"
  shows "removeRequest v cfg k w =
     (Inr (JNum 1),
      w\<lparr>store := (store w)(k := None,
            ''QUEUE_COUNT'' \<mapsto> (number_string (max 0 (n - 1)), expiry v cfg))\<rparr>)"
proof -
  from assms(5) obtain c t' where c: "store w ''QUEUE_COUNT'' = Some (c, t')" "to_number c = Some n"
    by (auto simp: in_flight_def split: option.splits)
  let ?w1 = "w\<lparr>store := (store w)(k := None)\<rparr>"
  have "down1Count v cfg ?w1 = (Inr (JStr ''OK''),
      ?w1\<lparr>store := (store ?w1)(''QUEUE_COUNT'' \<mapsto>
              (number_string (if n > 0 then n - 1 else 0), expiry v cfg))\<rparr>)"
    using assms(1,2,3) c by (intro down1Count_present) auto
  moreover have "(if n > 0 then n - 1 else 0) = max 0 (n - 1)" by simp
  ultimately show ?thesis
    using assms(1,4)
    by (simp add: removeRequest_def await_def checkDone_ok delRedis_ok resolve_def)
qed

text \<open>
  Claim C3, amended. For every request id other than the two counter keys, while the
  store answers: on an absent slot \<^verbatim>\<open>removeRequest\<close> returns 0 and leaves the store as it
  is; on a slot that holds a payload other than \<open>''pending''\<close> and other than the empty
  string it deletes the key, returns 1 and leaves the in-flight count as it is; on a
  pending slot it deletes the key, returns 1 and sets the count \<open>n\<close> to \<open>max 0 (n - 1)\<close>.
\<close>

theorem removeRequest_cases:
  assumes "faults w = []" and "expiry v cfg \<noteq> Some 0" and "\<not> reserved k"
  shows "(store w k = None \<longrightarrow> removeRequest v cfg k w = (Inr (JNum 0), w))
       \<and> (\<forall>p t. store w k = Some (p, t) \<and> p \<noteq> ''pending'' \<and> p \<noteq> [] \<longrightarrow>
            removeRequest v cfg k w = (Inr (JNum 1), w\<lparr>store := (store w)(k := None)\<rparr>)
            \<and> in_flight (w\<lparr>store := (store w)(k := None)\<rparr>) = in_flight w)
       \<and> (\<forall>t n. store w k = Some (''pending'', t) \<and> in_flight w = Some n \<longrightarrow>
            removeRequest v cfg k w =
              (Inr (JNum 1),
               w\<lparr>store := (store w)(k := None,
                  ''QUEUE_COUNT'' \<mapsto> (number_string (max 0 (n - 1)), expiry v cfg))\<rparr>))"
proof -
  have k: "k \<noteq> ''QUEUE_COUNT''" using assms(3) by (simp add: reserved_def)
  then have "in_flight (w\<lparr>store := (store w)(k := None)\<rparr>) = in_flight w"
    by (simp add: in_flight_def)
  then show ?thesis
    using assms(1,2) k
    by (simp add: removeRequest_absent removeRequest_done removeRequest_pending)
qed

theorem removeRequest_cases_witness:
  "faults ready5 = [] \<and> expiry Lib cfg5 \<noteq> Some 0 \<and> \<not> reserved ''a''
   \<and> store ready5 ''a'' = None
   \<and> removeRequest Lib cfg5 ''a'' ready5 = (Inr (JNum 0), ready5)
   \<and> store (snd (run_ops Lib cfg5 [AddRequest, SetRequest ''a'', SetDone ''a'' ''ok''] ready5)) ''a''
       = Some (''ok'', Some 60)
   \<and> fst (removeRequest Lib cfg5 ''a''
       (snd (run_ops Lib cfg5 [AddRequest, SetRequest ''a'', SetDone ''a'' ''ok''] ready5)))
       = Inr (JNum 1)
   \<and> store (snd (run_ops Lib cfg5 [AddRequest, SetRequest ''a''] ready5)) ''a''
       = Some (''pending'', Some 60)
   \<and> in_flight (snd (run_ops Lib cfg5 [AddRequest, SetRequest ''a''] ready5)) = Some 1
   \<and> fst (removeRequest Lib cfg5 ''a'' (snd (run_ops Lib cfg5 [AddRequest, SetRequest ''a''] ready5)))
       = Inr (JNum 1)
   \<and> in_flight (snd (removeRequest Lib cfg5 ''a''
       (snd (run_ops Lib cfg5 [AddRequest, SetRequest ''a''] ready5)))) = Some 0"
proof -
  define d where "d = snd (run_ops Lib cfg5 [AddRequest, SetRequest ''a'', SetDone ''a'' ''ok''] ready5)"
  define p where "p = snd (run_ops Lib cfg5 [AddRequest, SetRequest ''a''] ready5)"
  have e: "expiry Lib cfg5 \<noteq> Some 0" by (simp add: ex_defs)
  have a: "\<not> reserved ''a''" by (simp add: ex_defs)
  have f0: "faults ready5 = []" by (simp add: ex_defs)
  have fd: "faults d = []" by (simp add: d_def ex_defs)
  have fp: "faults p = []" by (simp add: p_def ex_defs)
  have s0: "store ready5 ''a'' = None" by (simp add: ex_defs)
  have sd: "store d ''a'' = Some (''ok'', Some 60)" by (simp add: d_def ex_defs)
  have sp: "store p ''a'' = Some (''pending'', Some 60)" by (simp add: p_def ex_defs)
  have ip: "in_flight p = Some 1" by (simp add: p_def ex_defs)
  show ?thesis
    unfolding d_def [symmetric] p_def [symmetric]
    using removeRequest_cases [OF f0 e a] removeRequest_cases [OF fd e a]
      removeRequest_cases [OF fp e a] f0 e a s0 sd sp ip
    by (simp add: in_flight_def to_number_number_string)
qed

text \<open>
  The claim as stated fails on a done slot in two ways. A slot completed with the empty
  payload is falsy for \<^verbatim>\<open>!isDone\<close>, so removing it decrements the count a second time
  (from 1 to 0 below), against the comment of the source that the count has been reduced
  by \<^verbatim>\<open>setDone\<close> already. And the request id \<open>''QUEUE_COUNT''\<close> names the counter: it reads
  as a done slot with payload \<open>''0''\<close>, and removing it deletes the count.
\<close>

theorem removeRequest_counterexample:
  "fst (checkDone ''a'' (snd (run_ops Lib cfg5
       [AddRequest, AddRequest, SetRequest ''a'', SetDone ''a'' ''''] ready5))) = Inr (JStr '''')
   \<and> in_flight (snd (run_ops Lib cfg5
       [AddRequest, AddRequest, SetRequest ''a'', SetDone ''a'' ''''] ready5)) = Some 1
   \<and> fst (removeRequest Lib cfg5 ''a'' (snd (run_ops Lib cfg5
       [AddRequest, AddRequest, SetRequest ''a'', SetDone ''a'' ''''] ready5))) = Inr (JNum 1)
   \<and> in_flight (snd (removeRequest Lib cfg5 ''a'' (snd (run_ops Lib cfg5
       [AddRequest, AddRequest, SetRequest ''a'', SetDone ''a'' ''''] ready5)))) = Some 0
   \<and> fst (checkDone ''QUEUE_COUNT'' ready5) = Inr (JStr ''0'')
   \<and> in_flight ready5 = Some 0
   \<and> fst (removeRequest Lib cfg5 ''QUEUE_COUNT'' ready5) = Inr (JNum 1)
   \<and> in_flight (snd (removeRequest Lib cfg5 ''QUEUE_COUNT'' ready5)) = None"
  by (simp add: ex_defs)

section \<open>Completion without a check\<close>

text \<open>
  Claim C10, amended. For every request id other than the two counter keys, whatever
  the slot holds and also when it is absent, \<^verbatim>\<open>setDone\<close> stores the payload under the
  id and sets the in-flight count \<open>n\<close> to \<open>max 0 (n - 1)\<close>; a second \<^verbatim>\<open>setDone\<close> of the
  same id decrements again. (The payload reads back from \<^verbatim>\<open>checkDone\<close> as itself unless it
  is the text \<open>''pending''\<close>.)
\<close>

theorem setDone_unconditional:
  assumes "faults w = []" and "expiry v cfg \<noteq> Some 0" and "\<not> reserved k"
    and "in_flight w = Some n"
  shows "(case setDone v cfg k p w of (r, w') \<Rightarrow>
            r = Inr (JStr ''OK'') \<and> store w' k = Some (p, expiry v cfg)
          \<and> in_flight w' = Some (max 0 (n - 1))
          \<and> (case setDone v cfg k p' w' of (r', w'') \<Rightarrow>
               r' = Inr (JStr ''OK'') \<and> store w'' k = Some (p', expiry v cfg)
             \<and> in_flight w'' = Some (max 0 (max 0 (n - 1) - 1))))"
proof -
  have k: "k \<noteq> ''QUEUE_COUNT''" using assms(3) by (simp add: reserved_def)
  let ?w1 = "w\<lparr>store := (store w)(k \<mapsto> (p, expiry v cfg),
            ''QUEUE_COUNT'' \<mapsto> (number_string (max 0 (n - 1)), expiry v cfg)),
        emitted := emitted w @ [k]\<rparr>"
  have s1: "setDone v cfg k p w = (Inr (JStr ''OK''), ?w1)"
    using assms(1,2) k assms(4) by (rule setDone_ok)
  have f1: "faults ?w1 = []" using assms(1) by simp
  have i1: "in_flight ?w1 = Some (max 0 (n - 1))"
    by (simp add: in_flight_def to_number_number_string)
  have s2: "setDone v cfg k p' ?w1 = (Inr (JStr ''OK''),
      ?w1\<lparr>store := (store ?w1)(k \<mapsto> (p', expiry v cfg),
            ''QUEUE_COUNT'' \<mapsto> (number_string (max 0 (max 0 (n - 1) - 1)), expiry v cfg)),
        emitted := emitted ?w1 @ [k]\<rparr>)"
    using f1 assms(2) k i1 by (rule setDone_ok)
  show ?thesis
    using k by (simp add: s1 s2 i1 in_flight_def to_number_number_string)
qed

theorem setDone_unconditional_witness:
  "faults ready5 = [] \<and> expiry Lib cfg5 \<noteq> Some 0 \<and> \<not> reserved ''never''
   \<and> in_flight ready5 = Some 0 \<and> store ready5 ''never'' = None
   \<and> (case setDone Lib cfg5 ''never'' ''r1'' ready5 of (r, w') \<Rightarrow>
            r = Inr (JStr ''OK'') \<and> store w' ''never'' = Some (''r1'', Some 60)
          \<and> in_flight w' = Some 0
          \<and> (case setDone Lib cfg5 ''never'' ''r2'' w' of (r', w'') \<Rightarrow>
               r' = Inr (JStr ''OK'') \<and> store w'' ''never'' = Some (''r2'', Some 60)
             \<and> in_flight w'' = Some 0))"
proof -
  have h1: "faults ready5 = []" by (simp add: ex_defs)
  have h2: "expiry Lib cfg5 \<noteq> Some 0" by (simp add: ex_defs)
  have h3: "\<not> reserved ''never''" by (simp add: ex_defs)
  have h4: "in_flight ready5 = Some 0" by (simp add: ex_defs)
  have h5: "store ready5 ''never'' = None" by (simp add: ex_defs)
  show ?thesis
    using setDone_unconditional [OF h1 h2 h3 h4, of "''r1''" "''r2''"] h1 h2 h3 h4 h5
    by (simp add: cfg5_def)
qed

text \<open>
  For the request id \<open>''QUEUE_COUNT''\<close> the claim fails: the payload \<open>''7''\<close> is written
  over the counter and then decremented, so the slot holds \<open>''6''\<close>, not the payload, and
  the count has gone from 0 to 6.
\<close>

theorem setDone_counterexample:
  "fst (setDone Lib cfg5 ''QUEUE_COUNT'' ''7'' ready5) = Inr (JStr ''OK'')
   \<and> store (snd (setDone Lib cfg5 ''QUEUE_COUNT'' ''7'' ready5)) ''QUEUE_COUNT'' = Some (''6'', Some 60)
   \<and> fst (checkDone ''QUEUE_COUNT'' (snd (setDone Lib cfg5 ''QUEUE_COUNT'' ''7'' ready5)))
       = Inr (JStr ''6'')
   \<and> in_flight ready5 = Some 0
   \<and> in_flight (snd (setDone Lib cfg5 ''QUEUE_COUNT'' ''7'' ready5)) = Some 6"
  by (simp add: ex_defs)

section \<open>Expiry of the slots\<close>

lemma elapse_expiring:
  "store w k = Some (x, Some r) \<Longrightarrow>
   store (elapse t w) k = (if r \<le> t then None else Some (x, Some (r - t)))"
  by (simp add: elapse_def)

lemma elapse_persistent: "store w k = Some (x, None) \<Longrightarrow> store (elapse t w) k = Some (x, None)"
  by (simp add: elapse_def)

lemma elapse_absent: "store w k = None \<Longrightarrow> store (elapse t w) k = None"
  by (simp add: elapse_def)

lemma faults_elapse [simp]: "faults (elapse t w) = faults w"
  by (simp add: elapse_def)

lemma down1Count_keeps_expiry:
  assumes "faults w = []" and "expiry v cfg \<noteq> Some 0"
    and "store w k = Some (x, expiry v cfg)"
  shows "\<exists>y. store (snd (down1Count v cfg w)) k = Some (y, expiry v cfg)
            \<and> (\<not> reserved k \<longrightarrow> y = x)"
proof (cases "store w ''QUEUE_COUNT''")
  case None
  have "faults (initialized v cfg w) = []" using assms(1) by simp
  then have "snd (down1Count v cfg w) =
      (initialized v cfg w)\<lparr>store := (store (initialized v cfg w))
         (''QUEUE_COUNT'' \<mapsto> (number_string 0, expiry v cfg))\<rparr>"
    using assms(2)
    by (simp add: down1Count_def await_def getCount_absent [OF assms(1,2) None] setCount_def
        setRedis_ok)
  then show ?thesis
    using assms(3) by (auto simp: initialized_def reserved_def)
next
  case (Some e)
  obtain c t where e: "store w ''QUEUE_COUNT'' = Some (c, t)" using Some by (cases e) simp
  show ?thesis
  proof (cases "to_number c")
    case None
    then have "snd (down1Count v cfg w) = w"
      using assms(1) e by (simp add: down1Count_def await_def getCount_present reject_def)
    then show ?thesis using assms(3) by simp
  next
    case (Some n)
    from down1Count_present [OF assms(1,2) e Some] assms(3) show ?thesis
      by (auto simp: reserved_def)
  qed
qed

lemma setDone_slot:
  assumes "faults w = []" and "expiry v cfg \<noteq> Some 0"
  shows "\<exists>y. store (snd (setDone v cfg k p w)) k = Some (y, expiry v cfg)
            \<and> (\<not> reserved k \<longrightarrow> y = p)"
proof -
  let ?w1 = "w\<lparr>store := (store w)(k \<mapsto> (p, expiry v cfg)), emitted := emitted w @ [k]\<rparr>"
  have f1: "faults ?w1 = []" using assms(1) by simp
  have s1: "store ?w1 k = Some (p, expiry v cfg)" by simp
  have "snd (setDone v cfg k p w) = snd (down1Count v cfg ?w1)"
    using assms(1,2)
    by (simp add: setDone_def await_def setRedis_ok emit_def resolve_def split: prod.splits sum.splits)
  then show ?thesis
    using down1Count_keeps_expiry [OF f1 assms(2) s1] by simp
qed

text \<open>
  Claim C5, amended. In the module \<^verbatim>\<open>src/lib/async-api-queue.js\<close> the slot writes of
  \<^verbatim>\<open>setRequest\<close> and \<^verbatim>\<open>setDone\<close> store the key with the configured expiration as its
  seconds to live, so the slot is gone once that many seconds have passed and is still
  there before. In the module of \<^verbatim>\<open>src/unnamed/part_000\<close> the same writes carry no
  expiry, and the slot stays however much time passes. (While the store answers; under a
  request id other than the counter keys the value kept is the payload.)
\<close>

theorem slot_write_expiry:
  assumes "faults w = []" and "0 < cfg_expiration cfg"
  shows "(case setRequest Lib cfg k w of (r, w') \<Rightarrow>
            r = Inr (JStr ''OK'')
          \<and> store w' k = Some (''pending'', Some (cfg_expiration cfg))
          \<and> (\<forall>t. store (elapse t w') k =
                 (if cfg_expiration cfg \<le> t then None
                  else Some (''pending'', Some (cfg_expiration cfg - t)))))
       \<and> (case setDone Lib cfg k p w of (r, w') \<Rightarrow>
            (\<exists>y. store w' k = Some (y, Some (cfg_expiration cfg))
               \<and> (\<not> reserved k \<longrightarrow> y = p)
               \<and> (\<forall>t. store (elapse t w') k =
                      (if cfg_expiration cfg \<le> t then None
                       else Some (y, Some (cfg_expiration cfg - t))))))
       \<and> (case setRequest Part000 cfg k w of (r, w') \<Rightarrow>
            r = Inr (JStr ''OK'')
          \<and> store w' k = Some (''pending'', None)
          \<and> (\<forall>t. store (elapse t w') k = Some (''pending'', None)))
       \<and> (case setDone Part000 cfg k p w of (r, w') \<Rightarrow>
            (\<exists>y. store w' k = Some (y, None)
               \<and> (\<not> reserved k \<longrightarrow> y = p)
               \<and> (\<forall>t. store (elapse t w') k = Some (y, None))))"
proof -
  have e: "expiry Lib cfg \<noteq> Some 0" "expiry Part000 cfg \<noteq> Some 0" using assms(2) by simp_all
  have a: "setRequest Lib cfg k w =
      (Inr (JStr ''OK''), w\<lparr>store := (store w)(k \<mapsto> (''pending'', Some (cfg_expiration cfg)))\<rparr>)"
    using setRedis_ok [OF assms(1) e(1)] by (simp add: setRequest_def)
  have b: "setRequest Part000 cfg k w =
      (Inr (JStr ''OK''), w\<lparr>store := (store w)(k \<mapsto> (''pending'', None))\<rparr>)"
    using setRedis_ok [OF assms(1) e(2)] by (simp add: setRequest_def)
  from setDone_slot [OF assms(1) e(1), of k p] obtain y where
    c: "store (snd (setDone Lib cfg k p w)) k = Some (y, Some (cfg_expiration cfg))"
       "\<not> reserved k \<longrightarrow> y = p" by auto
  from setDone_slot [OF assms(1) e(2), of k p] obtain z where
    d: "store (snd (setDone Part000 cfg k p w)) k = Some (z, None)"
       "\<not> reserved k \<longrightarrow> z = p" by auto
  have c': "case setDone Lib cfg k p w of (r, w') \<Rightarrow>
            (\<exists>y. store w' k = Some (y, Some (cfg_expiration cfg))
               \<and> (\<not> reserved k \<longrightarrow> y = p)
               \<and> (\<forall>t. store (elapse t w') k =
                      (if cfg_expiration cfg \<le> t then None
                       else Some (y, Some (cfg_expiration cfg - t)))))"
    using c by (cases "setDone Lib cfg k p w") (auto simp: elapse_expiring intro!: exI [of _ y])
  have d': "case setDone Part000 cfg k p w of (r, w') \<Rightarrow>
            (\<exists>y. store w' k = Some (y, None)
               \<and> (\<not> reserved k \<longrightarrow> y = p)
               \<and> (\<forall>t. store (elapse t w') k = Some (y, None)))"
    using d by (cases "setDone Part000 cfg k p w") (auto simp: elapse_persistent intro!: exI [of _ z])
  show ?thesis
    using c' d' by (simp add: a b elapse_expiring elapse_persistent)
qed

theorem slot_write_expiry_witness:
  "faults ready5 = [] \<and> 0 < cfg_expiration cfg5 \<and> \<not> reserved ''a''
   \<and> store (snd (setRequest Lib cfg5 ''a'' ready5)) ''a'' = Some (''pending'', Some 60)
   \<and> store (elapse 59 (snd (setRequest Lib cfg5 ''a'' ready5))) ''a'' = Some (''pending'', Some 1)
   \<and> store (elapse 60 (snd (setRequest Lib cfg5 ''a'' ready5))) ''a'' = None
   \<and> store (snd (setDone Lib cfg5 ''a'' ''ok'' ready5)) ''a'' = Some (''ok'', Some 60)
   \<and> store (elapse 60 (snd (setDone Lib cfg5 ''a'' ''ok'' ready5))) ''a'' = None
   \<and> store (elapse 60 (snd (setRequest Part000 cfg5 ''a'' ready5))) ''a'' = Some (''pending'', None)
   \<and> store (elapse 60 (snd (setDone Part000 cfg5 ''a'' ''ok'' ready5))) ''a'' = Some (''ok'', None)"
proof -
  have h1: "faults ready5 = []" by (simp add: ex_defs)
  have h2: "0 < cfg_expiration cfg5" by (simp add: ex_defs)
  have h3: "\<not> reserved ''a''" by (simp add: ex_defs)
  show ?thesis
    using slot_write_expiry [OF h1 h2, of "''a''" "''ok''"] h1 h2 h3
    by (auto simp: cfg5_def split: prod.splits)
qed

text \<open>
  The claim as stated says both modules write the slot with a time to live. The class in
  \<^verbatim>\<open>part_000\<close> calls \<^verbatim>\<open>client.set(key, value, callback)\<close> without \<^verbatim>\<open>EX\<close>: its pending
  slot has no expiry and is still there after any number of seconds.
\<close>

theorem slot_write_expiry_counterexample:
  "fst (setRequest Part000 cfg5 ''a'' fresh) = Inr (JStr ''OK'')
   \<and> store (snd (setRequest Part000 cfg5 ''a'' fresh)) ''a'' = Some (''pending'', None)
   \<and> store (elapse 60 (snd (setRequest Part000 cfg5 ''a'' fresh))) ''a'' = Some (''pending'', None)
   \<and> store (elapse 1000000 (snd (setRequest Part000 cfg5 ''a'' fresh))) ''a''
       = Some (''pending'', None)"
  by (simp add: ex_defs elapse_def)

section \<open>Expiry of the counters\<close>

text \<open>
  Claim C9. In the module \<^verbatim>\<open>src/lib/async-api-queue.js\<close>, \<^verbatim>\<open>setCount\<close> and
  \<^verbatim>\<open>setSize\<close> write their key with the configured expiration as its seconds to live.
  Once the seconds of both counter keys have run out, both are absent, and the next
  \<^verbatim>\<open>getCount\<close> or \<^verbatim>\<open>getSize\<close> writes count 0 and the configured size, whatever the count
  was. The same reset happens when only \<^verbatim>\<open>QUEUE_SIZE\<close> has run out while the count is
  still stored.
\<close>

theorem counters_expire:
  assumes "faults w = []" and "0 < cfg_expiration cfg"
  shows "store (snd (setCount Lib cfg n w)) ''QUEUE_COUNT''
           = Some (number_string n, Some (cfg_expiration cfg))
       \<and> store (snd (setSize Lib cfg n w)) ''QUEUE_SIZE''
           = Some (number_string n, Some (cfg_expiration cfg))
       \<and> (\<forall>c s r1 r2 t.
            store w ''QUEUE_COUNT'' = Some (c, Some r1) \<and> store w ''QUEUE_SIZE'' = Some (s, Some r2)
            \<and> r1 \<le> t \<and> r2 \<le> t \<longrightarrow>
              store (elapse t w) ''QUEUE_COUNT'' = None
            \<and> store (elapse t w) ''QUEUE_SIZE'' = None
            \<and> getCount Lib cfg (elapse t w) = (Inr (JNum 0), initialized Lib cfg (elapse t w))
            \<and> getSize Lib cfg (elapse t w)
                = (Inr (JNum (cfg_size cfg)), initialized Lib cfg (elapse t w))
            \<and> in_flight (initialized Lib cfg (elapse t w)) = Some 0)
       \<and> (\<forall>c s r1 r2 t.
            store w ''QUEUE_COUNT'' = Some (c, Some r1) \<and> store w ''QUEUE_SIZE'' = Some (s, Some r2)
            \<and> r2 \<le> t \<and> t < r1 \<longrightarrow>
              store (elapse t w) ''QUEUE_COUNT'' = Some (c, Some (r1 - t))
            \<and> getSize Lib cfg (elapse t w)
                = (Inr (JNum (cfg_size cfg)), initialized Lib cfg (elapse t w))
            \<and> in_flight (initialized Lib cfg (elapse t w)) = Some 0)"
proof -
  have e: "expiry Lib cfg \<noteq> Some 0" using assms(2) by simp
  have i: "\<And>u. in_flight (initialized Lib cfg u) = Some 0"
    by (simp add: in_flight_def store_initialized_count to_number_0)
  have f: "\<And>t. faults (elapse t w) = []" using assms(1) by simp
  have a: "store (snd (setCount Lib cfg n w)) ''QUEUE_COUNT''
           = Some (number_string n, Some (cfg_expiration cfg))"
    using setRedis_ok [OF assms(1) e] by (simp add: setCount_def)
  have b: "store (snd (setSize Lib cfg n w)) ''QUEUE_SIZE''
           = Some (number_string n, Some (cfg_expiration cfg))"
    using setRedis_ok [OF assms(1) e] by (simp add: setSize_def)
  show ?thesis
    using a b i
    by (auto simp: elapse_expiring getCount_absent [OF f e] getSize_absent [OF f e])
qed

theorem counters_expire_witness:
  "faults (snd (up1Count Lib cfg5 ready5)) = [] \<and> 0 < cfg_expiration cfg5
   \<and> store (snd (up1Count Lib cfg5 ready5)) ''QUEUE_COUNT'' = Some (''1'', Some 60)
   \<and> store (snd (up1Count Lib cfg5 ready5)) ''QUEUE_SIZE'' = Some (''5'', Some 60)
   \<and> store (elapse 60 (snd (up1Count Lib cfg5 ready5))) ''QUEUE_COUNT'' = None
   \<and> store (elapse 60 (snd (up1Count Lib cfg5 ready5))) ''QUEUE_SIZE'' = None
   \<and> fst (getCount Lib cfg5 (elapse 60 (snd (up1Count Lib cfg5 ready5)))) = Inr (JNum 0)
   \<and> fst (getSize Lib cfg5 (elapse 60 (snd (up1Count Lib cfg5 ready5)))) = Inr (JNum 5)
   \<and> in_flight (snd (getSize Lib cfg5 (elapse 60 (snd (up1Count Lib cfg5 ready5))))) = Some 0
   \<and> store (elapse 30 (snd (up1Count Lib cfg5 (elapse 30 ready5)))) ''QUEUE_COUNT''
       = Some (''1'', Some 30)
   \<and> store (elapse 30 (snd (up1Count Lib cfg5 (elapse 30 ready5)))) ''QUEUE_SIZE'' = None
   \<and> in_flight (snd (getSize Lib cfg5 (elapse 30 (snd (up1Count Lib cfg5 (elapse 30 ready5))))))
       = Some 0"
proof -
  define u where "u = snd (up1Count Lib cfg5 ready5)"
  define u' where "u' = snd (up1Count Lib cfg5 (elapse 30 ready5))"
  have h1: "faults u = []" by (simp add: u_def ex_defs)
  have h1': "faults u' = []" by (simp add: u'_def ex_defs elapse_def)
  have h2: "0 < cfg_expiration cfg5" by (simp add: ex_defs)
  have c: "store u ''QUEUE_COUNT'' = Some (''1'', Some 60)" by (simp add: u_def ex_defs)
  have s: "store u ''QUEUE_SIZE'' = Some (''5'', Some 60)" by (simp add: u_def ex_defs)
  have c': "store u' ''QUEUE_COUNT'' = Some (''1'', Some 60)" by (simp add: u'_def ex_defs elapse_def)
  have s': "store u' ''QUEUE_SIZE'' = Some (''5'', Some 30)" by (simp add: u'_def ex_defs elapse_def)
  have e: "store (elapse 30 u') ''QUEUE_SIZE'' = None" using s' by (simp add: elapse_expiring)
  show ?thesis
    unfolding u_def [symmetric] u'_def [symmetric]
    using counters_expire [OF h1 h2] counters_expire [OF h1' h2] h1 h2 c s c' s' e
    by (simp add: cfg5_def)
qed

section \<open>Every schedule of failures\<close>

lemma tripleD: "triple P m Q \<Longrightarrow> P w \<Longrightarrow> Q (fst (m w)) (snd (m w))"
  by (simp add: triple_def)

lemma fine_Inl: "fine F c v cfg (Inl e :: rejection + 'a) = fine F c v cfg (Inl e :: rejection + 'b)"
  by (simp add: fine_def)

lemma post_weaken:
  "triple P m (post F c v cfg A) \<Longrightarrow> (\<And>x. A x \<Longrightarrow> B x) \<Longrightarrow> triple P m (post F c v cfg B)"
  by (simp add: triple_def post_def)

lemma resolve_post: "A x \<Longrightarrow> triple (stable F c) (resolve x) (post F c v cfg A)"
  by (simp add: triple_def resolve_def post_def fine_def)

lemma reject_OutsideModel_post: "\<not> c \<Longrightarrow> triple (stable F c) (reject OutsideModel) (post F c v cfg A)"
  by (simp add: triple_def reject_def post_def fine_def)

lemma await_post:
  assumes "triple (stable F c) m (post F c v cfg A)"
    and "\<And>x. A x \<Longrightarrow> triple (stable F c) (f x) (post F c v cfg B)"
  shows "triple (stable F c) (await m f) (post F c v cfg B)"
proof (unfold triple_def, intro allI impI)
  fix w assume w: "stable F c w"
  obtain r w' where m: "m w = (r, w')" by (cases "m w")
  from tripleD [OF assms(1) w] m have p: "post F c v cfg A r w'" by simp
  show "post F c v cfg B (fst (await m f w)) (snd (await m f w))"
  proof (cases r)
    case (Inl e)
    with p m show ?thesis by (simp add: await_def post_def fine_def)
  next
    case (Inr x)
    with p have "A x" "stable F c w'" by (simp_all add: post_def)
    from tripleD [OF assms(2) [OF this(1)] this(2)] m Inr show ?thesis
      by (simp add: await_def)
  qed
qed

lemma promise_all_post:
  assumes "triple (stable F c) m1 (post F c v cfg A)" and "triple (stable F c) m2 (post F c v cfg B)"
  shows "triple (stable F c) (promise_all m1 m2) (post F c v cfg (\<lambda>x. True))"
proof (unfold triple_def, intro allI impI)
  fix w assume w: "stable F c w"
  obtain r1 w1 where m1: "m1 w = (r1, w1)" by (cases "m1 w")
  obtain r2 w2 where m2: "m2 w1 = (r2, w2)" by (cases "m2 w1")
  from tripleD [OF assms(1) w] m1 have p1: "post F c v cfg A r1 w1" by simp
  then have "stable F c w1" by (simp add: post_def)
  from tripleD [OF assms(2) this] m2 have p2: "post F c v cfg B r2 w2" by simp
  show "post F c v cfg (\<lambda>x. True) (fst (promise_all m1 m2 w)) (snd (promise_all m1 m2 w))"
    using p1 p2 m1 m2
    by (auto simp: promise_all_def post_def fine_def split: sum.splits)
qed

lemma next_fault_inv:
  "stable F c w \<Longrightarrow> stable F c (snd (next_fault w)) \<and> store (snd (next_fault w)) = store w
     \<and> (\<forall>e. fst (next_fault w) = Some e \<longrightarrow> Some e \<in> F)"
  by (auto simp: next_fault_def stable_def counters_ok_def count_ok_def size_ok_def split: list.splits)

lemma client_get_post:
  "triple (stable F c) (client_get k)
     (post F c v cfg (\<lambda>x. c \<longrightarrow> (k = ''QUEUE_COUNT'' \<longrightarrow> count_val x) \<and> (k = ''QUEUE_SIZE'' \<longrightarrow> size_val x)))"
proof (unfold triple_def, intro allI impI)
  fix w assume w: "stable F c w"
  obtain f w' where n: "next_fault w = (f, w')" by (cases "next_fault w")
  from next_fault_inv [OF w] n have i: "stable F c w'" and s: "store w' = store w"
    and e: "\<forall>e. f = Some e \<longrightarrow> Some e \<in> F" by simp_all
  show "post F c v cfg (\<lambda>x. c \<longrightarrow> (k = ''QUEUE_COUNT'' \<longrightarrow> count_val x) \<and> (k = ''QUEUE_SIZE'' \<longrightarrow> size_val x))
          (fst (client_get k w)) (snd (client_get k w))"
  proof (cases f)
    case None
    with n i show ?thesis
      by (auto simp: client_get_def post_def fine_def stable_def counters_ok_def count_ok_def
          size_ok_def count_val_def size_val_def split: option.splits)
  next
    case (Some a)
    with n i e show ?thesis by (simp add: client_get_def post_def fine_def)
  qed
qed

lemma client_set_post:
  assumes "c \<Longrightarrow> (k = ''QUEUE_COUNT'' \<longrightarrow> count_val (JStr x)) \<and> (k = ''QUEUE_SIZE'' \<longrightarrow> size_val (JStr x))"
  shows "triple (stable F c) (client_set k x (expiry v cfg)) (post F c v cfg (\<lambda>x. True))"
proof (unfold triple_def, intro allI impI)
  fix w assume w: "stable F c w"
  obtain f w' where n: "next_fault w = (f, w')" by (cases "next_fault w")
  from next_fault_inv [OF w] n have i: "stable F c w'" and s: "store w' = store w"
    and e: "\<forall>e. f = Some e \<longrightarrow> Some e \<in> F" by simp_all
  show "post F c v cfg (\<lambda>x. True) (fst (client_set k x (expiry v cfg) w))
          (snd (client_set k x (expiry v cfg) w))"
  proof (cases f)
    case None
    with n i assms show ?thesis
      by (auto simp: client_set_def post_def fine_def stable_def counters_ok_def count_ok_def
          size_ok_def count_val_def size_val_def split: option.splits)
  next
    case (Some a)
    with n i e show ?thesis by (simp add: client_set_def post_def fine_def)
  qed
qed

lemma client_del_post:
  "triple (stable F c) (client_del k) (post F c v cfg (\<lambda>x. True))"
proof (unfold triple_def, intro allI impI)
  fix w assume w: "stable F c w"
  obtain f w' where n: "next_fault w = (f, w')" by (cases "next_fault w")
  from next_fault_inv [OF w] n have i: "stable F c w'" and s: "store w' = store w"
    and e: "\<forall>e. f = Some e \<longrightarrow> Some e \<in> F" by simp_all
  show "post F c v cfg (\<lambda>x. True) (fst (client_del k w)) (snd (client_del k w))"
  proof (cases f)
    case None
    with n i show ?thesis
      by (auto simp: client_del_def post_def fine_def stable_def counters_ok_def count_ok_def
          size_ok_def split: option.splits)
  next
    case (Some a)
    with n i e show ?thesis by (simp add: client_del_def post_def fine_def)
  qed
qed

lemma count_val_number_string: "0 \<le> n \<Longrightarrow> count_val (JStr (number_string n))"
  by (simp add: count_val_def to_number_number_string)

lemma size_val_number_string: "size_val (JStr (number_string n))"
  by (simp add: size_val_def to_number_number_string)

lemma setCount_post:
  "0 \<le> n \<Longrightarrow> triple (stable F c) (setCount v cfg n) (post F c v cfg (\<lambda>x. True))"
  unfolding setCount_def setRedis_expiry
  by (rule client_set_post) (simp add: count_val_number_string)

lemma setSize_post:
  "triple (stable F c) (setSize v cfg n) (post F c v cfg (\<lambda>x. True))"
  unfolding setSize_def setRedis_expiry
  by (rule client_set_post) (simp add: size_val_number_string)

lemma initializeRedis_post:
  "triple (stable F c) (initializeRedis v cfg) (post F c v cfg (\<lambda>x. True))"
  unfolding initializeRedis_def
  by (rule promise_all_post [OF setCount_post setSize_post]) simp

lemma getCount_reply_post:
  assumes "c \<longrightarrow> count_val x"
  shows "triple (stable F c) (getCount_reply v cfg x) (post F c v cfg (\<lambda>y. c \<longrightarrow> count_val y))"
proof (cases "x = JNull")
  case True
  then show ?thesis
    unfolding getCount_reply_def
    by (simp add: await_post [OF initializeRedis_post resolve_post] count_val_def)
next
  case False
  then show ?thesis
    unfolding getCount_reply_def using assms by (simp add: resolve_post)
qed

lemma getSize_reply_post:
  assumes "c \<longrightarrow> size_val x"
  shows "triple (stable F c) (getSize_reply v cfg x) (post F c v cfg (\<lambda>y. c \<longrightarrow> size_val y))"
proof (cases "x = JNull")
  case True
  then show ?thesis
    unfolding getSize_reply_def
    by (simp add: await_post [OF initializeRedis_post resolve_post] size_val_def)
next
  case False
  then show ?thesis
    unfolding getSize_reply_def using assms by (simp add: resolve_post)
qed

lemma getCount_post:
  "triple (stable F c) (getCount v cfg) (post F c v cfg (\<lambda>y. c \<longrightarrow> count_val y))"
  unfolding getCount_def getRedis_def
  by (rule await_post [OF client_get_post]) (simp add: getCount_reply_post)

lemma getSize_post:
  "triple (stable F c) (getSize v cfg) (post F c v cfg (\<lambda>y. c \<longrightarrow> size_val y))"
  unfolding getSize_def getRedis_def
  by (rule await_post [OF client_get_post]) (simp add: getSize_reply_post)

lemma up1Count_post:
  "triple (stable F c) (up1Count v cfg) (post F c v cfg (\<lambda>x. True))"
  unfolding up1Count_def
proof (rule await_post [OF getCount_post])
  fix x assume x: "c \<longrightarrow> count_val x"
  show "triple (stable F c) (case to_num x of None \<Rightarrow> reject OutsideModel | Some n \<Rightarrow> setCount v cfg (n + 1))
          (post F c v cfg (\<lambda>x. True))"
  proof (cases "to_num x")
    case None
    with x have "\<not> c" by (simp add: count_val_def)
    with None show ?thesis by (simp add: reject_OutsideModel_post)
  next
    case (Some n)
    show ?thesis
    proof (cases c)
      case True
      with x Some have "0 \<le> n + 1" by (simp add: count_val_def)
      with Some show ?thesis by (simp add: setCount_post)
    next
      case False
      then show ?thesis
        using Some unfolding setCount_def setRedis_expiry by (simp add: client_set_post)
    qed
  qed
qed

lemma down1Count_post:
  "triple (stable F c) (down1Count v cfg) (post F c v cfg (\<lambda>x. True))"
  unfolding down1Count_def
proof (rule await_post [OF getCount_post])
  fix x assume x: "c \<longrightarrow> count_val x"
  show "triple (stable F c)
          (case to_num x of None \<Rightarrow> reject OutsideModel
           | Some n \<Rightarrow> setCount v cfg (if n > 0 then n - 1 else 0))
          (post F c v cfg (\<lambda>x. True))"
  proof (cases "to_num x")
    case None
    with x have "\<not> c" by (simp add: count_val_def)
    with None show ?thesis by (simp add: reject_OutsideModel_post)
  next
    case (Some n)
    have "0 \<le> (if n > 0 then n - 1 else 0)" by simp
    with Some show ?thesis by (simp add: setCount_post del: if_split)
  qed
qed

lemma js_ge_defined: "to_num a = Some x \<Longrightarrow> to_num b = Some y \<Longrightarrow> js_ge a b \<noteq> None"
  by (cases a; cases b) simp_all

lemma js_ge_vals:
  assumes "count_val a" and "size_val b"
  shows "js_ge a b \<noteq> None"
proof -
  from assms obtain x y where "to_num a = Some x" "to_num b = Some y"
    by (auto simp: count_val_def size_val_def split: option.splits)
  then show ?thesis by (rule js_ge_defined)
qed

lemma isFullQueue_post:
  "triple (stable F c) (isFullQueue v cfg) (post F c v cfg (\<lambda>x. True))"
proof (unfold triple_def, intro allI impI)
  fix w assume w: "stable F c w"
  obtain r1 w1 where g1: "getRedis ''QUEUE_COUNT'' w = (r1, w1)" by (cases "getRedis ''QUEUE_COUNT'' w")
  obtain r2 w2 where g2: "getRedis ''QUEUE_SIZE'' w1 = (r2, w2)" by (cases "getRedis ''QUEUE_SIZE'' w1")
  let ?k1 = "case r1 of Inl e \<Rightarrow> (Inl e, w2) | Inr x \<Rightarrow> getCount_reply v cfg x w2"
  obtain cc w3 where k1: "?k1 = (cc, w3)" by (cases ?k1)
  let ?k2 = "case r2 of Inl e \<Rightarrow> (Inl e, w3) | Inr x \<Rightarrow> getSize_reply v cfg x w3"
  obtain s w4 where k2: "?k2 = (s, w4)" by (cases ?k2)
  from tripleD [OF client_get_post [where k = "''QUEUE_COUNT''" and v = v and cfg = cfg] w] g1
  have p1: "stable F c w1" "fine F c v cfg r1" "\<forall>x. r1 = Inr x \<longrightarrow> (c \<longrightarrow> count_val x)"
    by (simp_all add: getRedis_def post_def)
  from tripleD [OF client_get_post [where k = "''QUEUE_SIZE''" and v = v and cfg = cfg] p1(1)] g2
  have p2: "stable F c w2" "fine F c v cfg r2" "\<forall>x. r2 = Inr x \<longrightarrow> (c \<longrightarrow> size_val x)"
    by (simp_all add: getRedis_def post_def)
  have p3: "stable F c w3 \<and> fine F c v cfg cc \<and> (\<forall>x. cc = Inr x \<longrightarrow> (c \<longrightarrow> count_val x))"
  proof (cases r1)
    case (Inl e)
    with k1 p1 p2 show ?thesis by (auto simp: fine_def)
  next
    case (Inr x)
    with p1 have "c \<longrightarrow> count_val x" by simp
    from tripleD [OF getCount_reply_post [OF this, where v = v and cfg = cfg] p2(1)] k1 Inr
    show ?thesis by (simp add: post_def)
  qed
  have p4: "stable F c w4 \<and> fine F c v cfg s \<and> (\<forall>x. s = Inr x \<longrightarrow> (c \<longrightarrow> size_val x))"
  proof (cases r2)
    case (Inl e)
    with k2 p2 p3 show ?thesis by (auto simp: fine_def)
  next
    case (Inr x)
    with p2 have "c \<longrightarrow> size_val x" by simp
    from tripleD [OF getSize_reply_post [OF this, where v = v and cfg = cfg and F = F], of w3] p3 k2 Inr
    show ?thesis by (simp add: post_def)
  qed
  have d: "c \<longrightarrow> (\<forall>a b. cc = Inr a \<longrightarrow> s = Inr b \<longrightarrow> js_ge a b \<noteq> None)"
    using p3 p4 by (simp add: js_ge_vals)
  have r: "isFullQueue v cfg w =
      ((case r1 of Inl e \<Rightarrow> Inl e | Inr x1 \<Rightarrow>
         (case r2 of Inl e \<Rightarrow> Inl e | Inr x2 \<Rightarrow>
         (case cc of Inl e \<Rightarrow> Inl e | Inr count \<Rightarrow>
         (case s of Inl e \<Rightarrow> Inl e | Inr sz \<Rightarrow>
         (case js_ge count sz of None \<Rightarrow> Inl OutsideModel | Some b \<Rightarrow> Inr b))))), w4)"
    using g1 g2 k1 k2 by (simp add: isFullQueue_def)
  show "post F c v cfg (\<lambda>x. True) (fst (isFullQueue v cfg w)) (snd (isFullQueue v cfg w))"
    unfolding r using p1(2) p2(2) p3 p4 d
    by (auto simp: post_def fine_def split: sum.splits option.splits)
qed

lemma post_admitted:
  "triple (stable F c) m (post F c v cfg A) \<Longrightarrow> triple (stable F c) m (admitted F c v cfg x)"
  by (simp add: triple_def post_def admitted_def)

lemma addRequest_post:
  "triple (stable F c) (addRequest v cfg) (admitted F c v cfg AddRequest)"
proof (unfold triple_def, intro allI impI)
  fix w assume w: "stable F c w"
  obtain r w' where i: "isFullQueue v cfg w = (r, w')" by (cases "isFullQueue v cfg w")
  from tripleD [OF isFullQueue_post [where v = v and cfg = cfg] w] i
  have p: "stable F c w'" "fine F c v cfg r" by (simp_all add: post_def)
  show "admitted F c v cfg AddRequest (fst (addRequest v cfg w)) (snd (addRequest v cfg w))"
  proof (cases r)
    case (Inl e)
    with i p show ?thesis by (simp add: addRequest_def await_def admitted_def fine_def)
  next
    case (Inr full)
    show ?thesis
    proof (cases full)
      case True
      with Inr i p show ?thesis by (simp add: addRequest_def await_def admitted_def reject_def)
    next
      case False
      from tripleD [OF up1Count_post [where v = v and cfg = cfg] p(1)] Inr i False
      show ?thesis by (simp add: addRequest_def await_def admitted_def post_def)
    qed
  qed
qed

lemma setRequest_post:
  "c \<longrightarrow> \<not> reserved k \<Longrightarrow> triple (stable F c) (setRequest v cfg k) (post F c v cfg (\<lambda>x. True))"
  unfolding setRequest_def setRedis_expiry
  by (rule client_set_post) (simp add: reserved_def)

lemma checkDone_post:
  "triple (stable F c) (checkDone k) (post F c v cfg (\<lambda>x. True))"
  unfolding checkDone_def getRedis_def
  by (rule await_post [OF client_get_post]) (simp add: resolve_post)

lemma removeRequest_post:
  "triple (stable F c) (removeRequest v cfg k) (post F c v cfg (\<lambda>x. True))"
  unfolding removeRequest_def delRedis_def
  by (intro await_post [OF checkDone_post] await_post [OF client_del_post]
        await_post [OF down1Count_post])
     (simp_all add: resolve_post await_post [OF client_del_post] await_post [OF down1Count_post])

lemma emit_post: "triple (stable F c) (emit k) (post F c v cfg (\<lambda>x. True))"
  by (simp add: triple_def emit_def post_def fine_def stable_def counters_ok_def count_ok_def
      size_ok_def)

lemma setDone_post:
  "c \<longrightarrow> \<not> reserved k \<Longrightarrow> triple (stable F c) (setDone v cfg k p) (post F c v cfg (\<lambda>x. True))"
  unfolding setDone_def setRedis_expiry
  by (intro await_post [OF client_set_post] await_post [OF emit_post]
        await_post [OF down1Count_post])
     (simp_all add: reserved_def resolve_post)

lemma run_op_post:
  "c \<longrightarrow> plain_op x \<Longrightarrow> triple (stable F c) (run_op v cfg x) (admitted F c v cfg x)"
  by (cases x)
     (simp_all add: addRequest_post post_admitted [OF setRequest_post]
        post_admitted [OF checkDone_post] post_admitted [OF setDone_post]
        post_admitted [OF removeRequest_post] post_admitted [OF getSize_post]
        post_admitted [OF getCount_post])

lemma js_eq_num_defined: "size_val x \<Longrightarrow> js_eq_num x n \<noteq> None"
  by (cases x) (auto simp: size_val_def)

lemma initialize_post:
  "triple (stable F c) (initialize v sz ex)
     (post F c v \<lparr>cfg_size = sz, cfg_expiration = ex\<rparr> (\<lambda>x. x = \<lparr>cfg_size = sz, cfg_expiration = ex\<rparr>))"
  unfolding initialize_def Let_def
proof (rule await_post [OF getSize_post])
  fix s assume s: "c \<longrightarrow> size_val s"
  let ?cfg = "\<lparr>cfg_size = sz, cfg_expiration = ex\<rparr>"
  show "triple (stable F c)
          (case js_eq_num s sz of None \<Rightarrow> reject OutsideModel
           | Some True \<Rightarrow> resolve ?cfg
           | Some False \<Rightarrow> await (initializeRedis v ?cfg) (\<lambda>_. resolve ?cfg))
          (post F c v ?cfg (\<lambda>x. x = ?cfg))"
  proof (cases "js_eq_num s sz")
    case None
    with s have "\<not> c" using js_eq_num_defined by blast
    with None show ?thesis by (simp add: reject_OutsideModel_post)
  next
    case (Some b)
    then show ?thesis
      by (cases b) (simp_all add: resolve_post await_post [OF initializeRedis_post resolve_post])
  qed
qed

lemma run_ops_stable:
  assumes "stable F c w" and "c \<longrightarrow> (\<forall>x \<in> set ops. plain_op x)"
  shows "stable F c (snd (run_ops v cfg ops w))
       \<and> (\<forall>r \<in> set (fst (run_ops v cfg ops w)). r = Inl QueueFull \<or> fine F c v cfg r)"
  using assms
proof (induction ops arbitrary: w)
  case Nil
  then show ?case by simp
next
  case (Cons x xs)
  obtain r w' where r: "run_op v cfg x w = (r, w')" by (cases "run_op v cfg x w")
  from Cons.prems have "c \<longrightarrow> plain_op x" by simp
  from tripleD [OF run_op_post [OF this, where v = v and cfg = cfg] Cons.prems(1)] r
  have a: "stable F c w'" "r = Inl QueueFull \<or> fine F c v cfg r"
    by (auto simp: admitted_def)
  from Cons.prems have "c \<longrightarrow> (\<forall>x \<in> set xs. plain_op x)" by simp
  from Cons.IH [OF a(1) this] a(2) r show ?case
    by (auto split: prod.splits)
qed

lemma stable_True: "counters_ok w \<Longrightarrow> stable (set (faults w)) True w"
  by (simp add: stable_def)


lemma count_ok_in_flight: "count_ok w \<Longrightarrow> in_flight w = Some n \<Longrightarrow> 0 \<le> n"
  by (auto simp: count_ok_def in_flight_def split: option.splits)

lemmas ex_defs' = ex_defs counters_ok_def size_ok_def


section \<open>The count is never negative\<close>

text \<open>
  Claim C4, amended. From a store whose counters are in order (an empty store, or the
  store after \<^verbatim>\<open>initialize\<close>), every sequence of public operations whose request ids are
  not the names of the two counter keys, under every schedule of store failures, leaves
  the persisted count absent or a number that is not negative; \<^verbatim>\<open>initialize\<close> keeps it so
  too. While the store answers, \<^verbatim>\<open>up1Count\<close> raises the count by 1 and \<^verbatim>\<open>down1Count\<close>
  takes \<open>n\<close> to \<open>max 0 (n - 1)\<close>, so a decrement from 0 stays at 0.
\<close>

theorem count_never_negative:
  assumes "counters_ok w" and "\<forall>x \<in> set ops. plain_op x"
  shows "counters_ok (snd (initialize v sz ex w))
       \<and> counters_ok (snd (run_ops v cfg ops w))
       \<and> (\<forall>n. in_flight (snd (run_ops v cfg ops w)) = Some n \<longrightarrow> 0 \<le> n)
       \<and> Inl OutsideModel \<notin> set (fst (run_ops v cfg ops w))
       \<and> (faults w = [] \<and> expiry v cfg \<noteq> Some 0 \<longrightarrow>
            (\<forall>n. in_flight w = Some n \<longrightarrow>
               in_flight (snd (up1Count v cfg w)) = Some (n + 1)
             \<and> in_flight (snd (down1Count v cfg w)) = Some (max 0 (n - 1))))"
proof -
  let ?F = "set (faults w)"
  have s: "stable ?F True w" using assms(1) by (rule stable_True)
  from tripleD [OF initialize_post s]
  have a: "counters_ok (snd (initialize v sz ex w))" by (simp add: post_def stable_def)
  from run_ops_stable [OF s, of ops v cfg] assms(2)
  have b: "stable ?F True (snd (run_ops v cfg ops w))"
    and c: "\<forall>r \<in> set (fst (run_ops v cfg ops w)). r = Inl QueueFull \<or> fine ?F True v cfg r"
    by simp_all
  from b have b': "counters_ok (snd (run_ops v cfg ops w))" by (simp add: stable_def)
  then have d: "\<forall>n. in_flight (snd (run_ops v cfg ops w)) = Some n \<longrightarrow> 0 \<le> n"
    using count_ok_in_flight by (auto simp: counters_ok_def)
  from c have e: "Inl OutsideModel \<notin> set (fst (run_ops v cfg ops w))"
    by (auto simp: fine_def QueueFull_def)
  have f: "faults w = [] \<and> expiry v cfg \<noteq> Some 0 \<longrightarrow>
            (\<forall>n. in_flight w = Some n \<longrightarrow>
               in_flight (snd (up1Count v cfg w)) = Some (n + 1)
             \<and> in_flight (snd (down1Count v cfg w)) = Some (max 0 (n - 1)))"
  proof (intro impI allI, elim conjE)
    fix n assume h: "faults w = []" "expiry v cfg \<noteq> Some 0" "in_flight w = Some n"
    from h(3) obtain c t where c: "store w ''QUEUE_COUNT'' = Some (c, t)" "to_number c = Some n"
      by (auto simp: in_flight_def split: option.splits)
    have "(if n > 0 then n - 1 else 0) = max 0 (n - 1)" by simp
    then show "in_flight (snd (up1Count v cfg w)) = Some (n + 1)
             \<and> in_flight (snd (down1Count v cfg w)) = Some (max 0 (n - 1))"
      by (simp add: up1Count_present [OF h(1,2) c] down1Count_present [OF h(1,2) c] in_flight_upd)
  qed
  from a b' d e f show ?thesis by blast
qed


theorem count_never_negative_witness:
  "counters_ok ready5
   \<and> plain_op AddRequest \<and> plain_op (SetRequest ''a'') \<and> plain_op (SetDone ''a'' ''ok'')
   \<and> plain_op (RemoveRequest ''a'')
   \<and> faults ready5 = [] \<and> expiry Lib cfg5 \<noteq> Some 0 \<and> in_flight ready5 = Some 0
   \<and> counters_ok (snd (initialize Lib 5 60 ready5))
   \<and> in_flight (snd (run_ops Lib cfg5 [AddRequest, SetRequest ''a'', SetDone ''a'' ''ok'',
        SetDone ''a'' ''ok'', RemoveRequest ''a''] ready5)) = Some 0
   \<and> counters_ok (snd (run_ops Lib cfg5 [AddRequest, SetRequest ''a'', SetDone ''a'' ''ok'',
        SetDone ''a'' ''ok'', RemoveRequest ''a''] ready5))
   \<and> in_flight (snd (up1Count Lib cfg5 ready5)) = Some 1
   \<and> in_flight (snd (down1Count Lib cfg5 ready5)) = Some 0"
proof -
  let ?ops = "[AddRequest, SetRequest ''a'', SetDone ''a'' ''ok'', SetDone ''a'' ''ok'',
                   RemoveRequest ''a'']"
  have h1: "counters_ok ready5" by (simp add: ex_defs')
  have h2: "\<forall>x \<in> set ?ops. plain_op x" by (simp add: reserved_def)
  have h3: "faults ready5 = []" "expiry Lib cfg5 \<noteq> Some 0" "in_flight ready5 = Some 0"
    by (simp_all add: ex_defs')
  have h4: "in_flight (snd (run_ops Lib cfg5 ?ops ready5)) = Some 0" by (simp add: ex_defs')
  show ?thesis
    using count_never_negative [OF h1 h2, of Lib 5 60 cfg5] h1 h2 h3 h4 by simp
qed

text \<open>
  With the name of the counter key as request id the invariant fails:
  \<^verbatim>\<open>setRequest("QUEUE_COUNT")\<close> leaves the text \<open>''pending''\<close> as the persisted count, which
  \<^verbatim>\<open>getCount\<close> then returns; and \<^verbatim>\<open>setDone("QUEUE_COUNT", "-5")\<close> whose read of the count
  fails leaves the persisted count at \<open>-5\<close>.
\<close>

theorem count_never_negative_counterexample:
  "fst (run_ops Lib cfg5 [SetRequest ''QUEUE_COUNT'', GetCount] ready5)
     = [Inr (JStr ''OK''), Inr (JStr ''pending'')]
   \<and> \<not> count_ok (snd (run_ops Lib cfg5 [SetRequest ''QUEUE_COUNT''] ready5))
   \<and> fst (setDone Lib cfg5 ''QUEUE_COUNT'' ''-5'' (ready5\<lparr>faults := [None, Some (Failure 0)]\<rparr>))
       = Inl (StoreError (Failure 0))
   \<and> in_flight (snd (setDone Lib cfg5 ''QUEUE_COUNT'' ''-5''
       (ready5\<lparr>faults := [None, Some (Failure 0)]\<rparr>))) = Some (- 5)"
  by (simp add: ex_defs)









section \<open>Rejections\<close>



lemma clean_store [simp]: "clean fs (w\<lparr>store := s\<rparr>) = clean fs w"
  by (simp add: clean_def)

lemma clean_emitted [simp]: "clean fs (w\<lparr>emitted := s\<rparr>) = clean fs w"
  by (simp add: clean_def)






























section \<open>The two modules side by side\<close>

lemma forget_entry:
  "(map_option (\<lambda>e. (fst e, None :: nat option)) a = map_option (\<lambda>e. (fst e, None)) b)
     = (map_option fst a = map_option fst b)"
  by (cases a; cases b) auto

lemma forget_eq_iff:
  "forget w1 = forget w2 \<longleftrightarrow>
     faults w1 = faults w2 \<and> emitted w1 = emitted w2
     \<and> (\<forall>k. map_option fst (store w1 k) = map_option fst (store w2 k))"
  by (cases w1; cases w2) (auto simp: forget_def fun_eq_iff forget_entry)

lemma alikeI:
  assumes "\<And>w1 w2. forget w1 = forget w2 \<Longrightarrow>
      fst (m1 w1) = fst (m2 w2) \<and> forget (snd (m1 w1)) = forget (snd (m2 w2))"
  shows "alike m1 m2"
  using assms by (simp add: alike_def)

lemma alikeD:
  "alike m1 m2 \<Longrightarrow> forget w1 = forget w2 \<Longrightarrow>
     fst (m1 w1) = fst (m2 w2) \<and> forget (snd (m1 w1)) = forget (snd (m2 w2))"
  by (simp add: alike_def)

lemma alike_resolve: "alike (resolve x) (resolve x)"
  by (simp add: alike_def resolve_def)

lemma alike_reject: "alike (reject e) (reject e)"
  by (simp add: alike_def reject_def)

lemma alike_await:
  assumes "alike m1 m2" and "\<And>x. alike (f1 x) (f2 x)"
  shows "alike (await m1 f1) (await m2 f2)"
proof (rule alikeI)
  fix w1 w2 assume w: "forget w1 = forget w2"
  obtain r1 u1 where a: "m1 w1 = (r1, u1)" by (cases "m1 w1")
  obtain r2 u2 where b: "m2 w2 = (r2, u2)" by (cases "m2 w2")
  from alikeD [OF assms(1) w] a b have r: "r2 = r1" and u: "forget u1 = forget u2" by simp_all
  show "fst (await m1 f1 w1) = fst (await m2 f2 w2)
      \<and> forget (snd (await m1 f1 w1)) = forget (snd (await m2 f2 w2))"
  proof (cases r1)
    case (Inl e)
    with a b r u show ?thesis by (simp add: await_def)
  next
    case (Inr x)
    with a b r alikeD [OF assms(2) u, of x] show ?thesis by (simp add: await_def)
  qed
qed

lemma alike_promise_all:
  assumes "alike m1 n1" and "alike m2 n2"
  shows "alike (promise_all m1 m2) (promise_all n1 n2)"
proof (rule alikeI)
  fix w1 w2 assume w: "forget w1 = forget w2"
  obtain r1 u1 where a: "m1 w1 = (r1, u1)" by (cases "m1 w1")
  obtain r2 u2 where b: "n1 w2 = (r2, u2)" by (cases "n1 w2")
  from alikeD [OF assms(1) w] a b have r: "r2 = r1" and u: "forget u1 = forget u2" by simp_all
  obtain r1' u1' where a': "m2 u1 = (r1', u1')" by (cases "m2 u1")
  obtain r2' u2' where b': "n2 u2 = (r2', u2')" by (cases "n2 u2")
  from alikeD [OF assms(2) u] a' b' have "r2' = r1'" "forget u1' = forget u2'" by simp_all
  with a b a' b' r show "fst (promise_all m1 m2 w1) = fst (promise_all n1 n2 w2)
      \<and> forget (snd (promise_all m1 m2 w1)) = forget (snd (promise_all n1 n2 w2))"
    by (simp add: promise_all_def)
qed

lemma alike_client_get: "alike (client_get k) (client_get k)"
  by (rule alikeI)
     (auto simp: forget_eq_iff client_get_def next_fault_def split: list.splits option.splits
       dest: spec [of _ k])

lemma alike_client_set:
  "t1 \<noteq> Some 0 \<Longrightarrow> t2 \<noteq> Some 0 \<Longrightarrow> alike (client_set k x t1) (client_set k x t2)"
  by (rule alikeI)
     (auto simp: forget_eq_iff client_set_def next_fault_def split: list.splits option.splits)

lemma alike_client_del: "alike (client_del k) (client_del k)"
  by (rule alikeI)
     (auto simp: forget_eq_iff client_del_def next_fault_def split: list.splits option.splits
       dest: spec [of _ k])

lemma alike_emit: "alike (emit k) (emit k)"
  by (rule alikeI) (auto simp: forget_eq_iff emit_def)

lemma alike_setRedis:
  "0 < cfg_expiration cfg \<Longrightarrow> alike (setRedis Lib cfg k x) (setRedis Part000 cfg' k x)"
  by (simp add: alike_client_set)

lemma alike_setCount:
  "0 < cfg_expiration cfg \<Longrightarrow> alike (setCount Lib cfg n) (setCount Part000 cfg' n)"
  unfolding setCount_def by (rule alike_setRedis)

lemma alike_setSize:
  "0 < cfg_expiration cfg \<Longrightarrow> alike (setSize Lib cfg n) (setSize Part000 cfg' n)"
  unfolding setSize_def by (rule alike_setRedis)

lemma alike_initializeRedis:
  "0 < cfg_expiration cfg \<Longrightarrow> cfg_size cfg' = cfg_size cfg \<Longrightarrow>
   alike (initializeRedis Lib cfg) (initializeRedis Part000 cfg')"
  unfolding initializeRedis_def
  by (simp add: alike_promise_all alike_setCount alike_setSize)

lemma alike_getCount_reply:
  "0 < cfg_expiration cfg \<Longrightarrow> cfg_size cfg' = cfg_size cfg \<Longrightarrow>
   alike (getCount_reply Lib cfg x) (getCount_reply Part000 cfg' x)"
  unfolding getCount_reply_def
  by (simp add: alike_await alike_initializeRedis alike_resolve)

lemma alike_getSize_reply:
  "0 < cfg_expiration cfg \<Longrightarrow> cfg_size cfg' = cfg_size cfg \<Longrightarrow>
   alike (getSize_reply Lib cfg x) (getSize_reply Part000 cfg' x)"
  unfolding getSize_reply_def
  by (simp add: alike_await alike_initializeRedis alike_resolve)

lemma alike_getCount:
  "0 < cfg_expiration cfg \<Longrightarrow> cfg_size cfg' = cfg_size cfg \<Longrightarrow>
   alike (getCount Lib cfg) (getCount Part000 cfg')"
  unfolding getCount_def getRedis_def
  by (simp add: alike_await alike_client_get alike_getCount_reply)

lemma alike_getSize:
  "0 < cfg_expiration cfg \<Longrightarrow> cfg_size cfg' = cfg_size cfg \<Longrightarrow>
   alike (getSize Lib cfg) (getSize Part000 cfg')"
  unfolding getSize_def getRedis_def
  by (simp add: alike_await alike_client_get alike_getSize_reply)

lemma alike_case_option:
  "alike a b \<Longrightarrow> (\<And>n. alike (f n) (g n)) \<Longrightarrow>
   alike (case x of None \<Rightarrow> a | Some n \<Rightarrow> f n) (case x of None \<Rightarrow> b | Some n \<Rightarrow> g n)"
  by (cases x) simp_all

lemma alike_up1Count:
  "0 < cfg_expiration cfg \<Longrightarrow> cfg_size cfg' = cfg_size cfg \<Longrightarrow>
   alike (up1Count Lib cfg) (up1Count Part000 cfg')"
  unfolding up1Count_def
  by (intro alike_await alike_getCount alike_case_option alike_reject alike_setCount)

lemma alike_down1Count:
  "0 < cfg_expiration cfg \<Longrightarrow> cfg_size cfg' = cfg_size cfg \<Longrightarrow>
   alike (down1Count Lib cfg) (down1Count Part000 cfg')"
  unfolding down1Count_def
  by (intro alike_await alike_getCount alike_case_option alike_reject alike_setCount)

lemma alike_isFullQueue:
  assumes "0 < cfg_expiration cfg" and "cfg_size cfg' = cfg_size cfg"
  shows "alike (isFullQueue Lib cfg) (isFullQueue Part000 cfg')"
proof (rule alikeI)
  fix w1 w2 assume w: "forget w1 = forget w2"
  obtain r1 a1 where g1: "getRedis ''QUEUE_COUNT'' w1 = (r1, a1)" by (cases "getRedis ''QUEUE_COUNT'' w1")
  obtain q1 b1 where h1: "getRedis ''QUEUE_COUNT'' w2 = (q1, b1)" by (cases "getRedis ''QUEUE_COUNT'' w2")
  from alikeD [OF alike_client_get w, of "''QUEUE_COUNT''"] g1 h1
  have e1: "q1 = r1" "forget a1 = forget b1" by (simp_all add: getRedis_def)
  obtain r2 a2 where g2: "getRedis ''QUEUE_SIZE'' a1 = (r2, a2)" by (cases "getRedis ''QUEUE_SIZE'' a1")
  obtain q2 b2 where h2: "getRedis ''QUEUE_SIZE'' b1 = (q2, b2)" by (cases "getRedis ''QUEUE_SIZE'' b1")
  from alikeD [OF alike_client_get e1(2), of "''QUEUE_SIZE''"] g2 h2
  have e2: "q2 = r2" "forget a2 = forget b2" by (simp_all add: getRedis_def)
  let ?k1 = "case r1 of Inl e \<Rightarrow> (Inl e, a2) | Inr x \<Rightarrow> getCount_reply Lib cfg x a2"
  let ?l1 = "case r1 of Inl e \<Rightarrow> (Inl e, b2) | Inr x \<Rightarrow> getCount_reply Part000 cfg' x b2"
  obtain c1 a3 where k1: "?k1 = (c1, a3)" by (cases ?k1)
  obtain d1 b3 where l1: "?l1 = (d1, b3)" by (cases ?l1)
  have e3: "d1 = c1 \<and> forget a3 = forget b3"
  proof (cases r1)
    case (Inl e)
    with k1 l1 e2 show ?thesis by auto
  next
    case (Inr x)
    with alikeD [OF alike_getCount_reply [OF assms] e2(2), of x] k1 l1 show ?thesis by simp
  qed
  let ?k2 = "case r2 of Inl e \<Rightarrow> (Inl e, a3) | Inr x \<Rightarrow> getSize_reply Lib cfg x a3"
  let ?l2 = "case r2 of Inl e \<Rightarrow> (Inl e, b3) | Inr x \<Rightarrow> getSize_reply Part000 cfg' x b3"
  obtain c2 a4 where k2: "?k2 = (c2, a4)" by (cases ?k2)
  obtain d2 b4 where l2: "?l2 = (d2, b4)" by (cases ?l2)
  have e4: "d2 = c2 \<and> forget a4 = forget b4"
  proof (cases r2)
    case (Inl e)
    with k2 l2 e3 show ?thesis by auto
  next
    case (Inr x)
    with alikeD [OF alike_getSize_reply [OF assms], of a3 b3 x] e3 k2 l2 show ?thesis by simp
  qed
  show "fst (isFullQueue Lib cfg w1) = fst (isFullQueue Part000 cfg' w2)
      \<and> forget (snd (isFullQueue Lib cfg w1)) = forget (snd (isFullQueue Part000 cfg' w2))"
    using g1 h1 g2 h2 k1 l1 k2 l2 e1 e2 e3 e4 by (simp add: isFullQueue_def)
qed

lemma alike_if: "alike a b \<Longrightarrow> alike c d \<Longrightarrow> alike (if p then a else c) (if p then b else d)"
  by simp

lemma alike_addRequest:
  "0 < cfg_expiration cfg \<Longrightarrow> cfg_size cfg' = cfg_size cfg \<Longrightarrow>
   alike (addRequest Lib cfg) (addRequest Part000 cfg')"
  unfolding addRequest_def
  by (intro alike_await alike_isFullQueue alike_if alike_reject alike_up1Count)

lemma alike_setRequest:
  "0 < cfg_expiration cfg \<Longrightarrow> alike (setRequest Lib cfg k) (setRequest Part000 cfg' k)"
  unfolding setRequest_def by (rule alike_setRedis)

lemma alike_checkDone: "alike (checkDone k) (checkDone k)"
  unfolding checkDone_def getRedis_def
  by (intro alike_await alike_client_get alike_resolve)

lemma alike_removeRequest:
  "0 < cfg_expiration cfg \<Longrightarrow> cfg_size cfg' = cfg_size cfg \<Longrightarrow>
   alike (removeRequest Lib cfg k) (removeRequest Part000 cfg' k)"
  unfolding removeRequest_def delRedis_def
  by (intro alike_await alike_checkDone alike_if alike_client_del alike_down1Count alike_resolve)

lemma alike_setDone:
  "0 < cfg_expiration cfg \<Longrightarrow> cfg_size cfg' = cfg_size cfg \<Longrightarrow>
   alike (setDone Lib cfg k p) (setDone Part000 cfg' k p)"
  unfolding setDone_def
  by (intro alike_await alike_setRedis alike_emit alike_down1Count alike_resolve)

lemma alike_run_op:
  "0 < cfg_expiration cfg \<Longrightarrow> cfg_size cfg' = cfg_size cfg \<Longrightarrow>
   alike (run_op Lib cfg x) (run_op Part000 cfg' x)"
  by (cases x)
     (simp_all add: alike_addRequest alike_setRequest alike_checkDone alike_setDone
        alike_removeRequest alike_getSize alike_getCount)

lemma alike_run_ops:
  assumes "0 < cfg_expiration cfg" and "cfg_size cfg' = cfg_size cfg"
  shows "forget w1 = forget w2 \<Longrightarrow>
     fst (run_ops Lib cfg ops w1) = fst (run_ops Part000 cfg' ops w2)
     \<and> forget (snd (run_ops Lib cfg ops w1)) = forget (snd (run_ops Part000 cfg' ops w2))"
proof (induction ops arbitrary: w1 w2)
  case Nil
  then show ?case by simp
next
  case (Cons x xs)
  obtain r1 u1 where a: "run_op Lib cfg x w1 = (r1, u1)" by (cases "run_op Lib cfg x w1")
  obtain r2 u2 where b: "run_op Part000 cfg' x w2 = (r2, u2)" by (cases "run_op Part000 cfg' x w2")
  from alikeD [OF alike_run_op [OF assms] Cons.prems, of x] a b
  have r: "r2 = r1" and u: "forget u1 = forget u2" by simp_all
  from Cons.IH [OF u] a b r show ?case by (simp add: split_beta)
qed

lemma alike_case_bool_option:
  "alike a b \<Longrightarrow> alike c d \<Longrightarrow> alike e f \<Longrightarrow>
   alike (case x of None \<Rightarrow> a | Some True \<Rightarrow> c | Some False \<Rightarrow> e)
         (case x of None \<Rightarrow> b | Some True \<Rightarrow> d | Some False \<Rightarrow> f)"
  by (cases x) (simp_all split: bool.splits)

lemma alike_initialize:
  "0 < ex \<Longrightarrow> alike (initialize Lib sz ex) (initialize Part000 sz ex)"
  unfolding initialize_def Let_def
  by (intro alike_await alike_getSize alike_case_bool_option alike_reject alike_resolve
        alike_initializeRedis) simp_all

lemma survives_entry:
  assumes "survives t w"
  shows "map_option fst (store (elapse t w) k) = map_option fst (store w k)"
proof (cases "store w k")
  case None
  then show ?thesis by (simp add: elapse_def)
next
  case (Some e)
  obtain x r where e: "e = (x, r)" by (cases e)
  show ?thesis
  proof (cases r)
    case None
    with Some e show ?thesis by (simp add: elapse_def)
  next
    case (Some n)
    from assms have "case store w k of None \<Rightarrow> True | Some (x, None) \<Rightarrow> True
                     | Some (x, Some r) \<Rightarrow> t < r"
      unfolding survives_def by (rule spec)
    with \<open>store w k = Some e\<close> e Some have "t < n" by simp
    with \<open>store w k = Some e\<close> e Some show ?thesis by (simp add: elapse_def)
  qed
qed

lemma survives_forget: "survives t w \<Longrightarrow> forget (elapse t w) = forget w"
  by (simp add: forget_eq_iff survives_entry) (simp add: elapse_def)

lemma run_steps_Op: "run_steps v cfg (map Op ops) w = run_ops v cfg ops w"
  by (induction ops arbitrary: w) (simp_all split: prod.splits)

lemma nothing_expires_Op: "nothing_expires v cfg (map Op ops) w"
  by (induction ops arbitrary: w) simp_all

lemma alike_run_steps:
  assumes "0 < cfg_expiration cfg" and "cfg_size cfg' = cfg_size cfg"
  shows "forget w1 = forget w2 \<Longrightarrow> nothing_expires Lib cfg steps w1 \<Longrightarrow>
     nothing_expires Part000 cfg' steps w2 \<Longrightarrow>
     fst (run_steps Lib cfg steps w1) = fst (run_steps Part000 cfg' steps w2)
     \<and> forget (snd (run_steps Lib cfg steps w1)) = forget (snd (run_steps Part000 cfg' steps w2))"
proof (induction steps arbitrary: w1 w2)
  case Nil
  then show ?case by simp
next
  case (Cons s xs)
  show ?case
  proof (cases s)
    case (Op x)
    obtain r1 u1 where a: "run_op Lib cfg x w1 = (r1, u1)" by (cases "run_op Lib cfg x w1")
    obtain r2 u2 where b: "run_op Part000 cfg' x w2 = (r2, u2)" by (cases "run_op Part000 cfg' x w2")
    from alikeD [OF alike_run_op [OF assms] Cons.prems(1), of x] a b
    have r: "r2 = r1" and u: "forget u1 = forget u2" by simp_all
    from Cons.prems(2,3) Op a b have n: "nothing_expires Lib cfg xs u1"
      "nothing_expires Part000 cfg' xs u2" by simp_all
    from Cons.IH [OF u n] Op a b r show ?thesis by (simp add: split_beta)
  next
    case (Wait t)
    with Cons.prems have s: "survives t w1" "survives t w2"
      and n: "nothing_expires Lib cfg xs (elapse t w1)"
        "nothing_expires Part000 cfg' xs (elapse t w2)" by simp_all
    from s Cons.prems(1) have "forget (elapse t w1) = forget (elapse t w2)"
      by (simp add: survives_forget)
    from Cons.IH [OF this n] Wait show ?thesis by simp
  qed
qed

text \<open>
  Claim C6, amended. For every configuration with a positive expiration, every schedule
  of store failures and every sequence of public operations with any waits in between
  during which no stored key runs out, started from stores that hold the same values, the
  two modules give the same results and end in stores that hold the same values under the
  same keys; so does \<^verbatim>\<open>initialize\<close>. A sequence with no wait at all is the special case
  stated with \<open>run_ops\<close>. The expiry of the keys is left out of the comparison: the
  module \<^verbatim>\<open>src/lib/async-api-queue.js\<close> attaches the configured expiration to every
  write, the class in \<^verbatim>\<open>src/unnamed/part_000\<close> none. Nothing is claimed once a key has
  run out.
\<close>

theorem modules_agree_up_to_expiry:
  assumes "0 < cfg_expiration cfg" and "cfg_size cfg' = cfg_size cfg"
    and "forget w1 = forget w2"
    and "nothing_expires Lib cfg steps w1" and "nothing_expires Part000 cfg' steps w2"
  shows "fst (run_steps Lib cfg steps w1) = fst (run_steps Part000 cfg' steps w2)
       \<and> forget (snd (run_steps Lib cfg steps w1)) = forget (snd (run_steps Part000 cfg' steps w2))
       \<and> fst (run_ops Lib cfg ops w1) = fst (run_ops Part000 cfg' ops w2)
       \<and> forget (snd (run_ops Lib cfg ops w1)) = forget (snd (run_ops Part000 cfg' ops w2))
       \<and> (0 < ex \<longrightarrow>
            fst (initialize Lib sz ex w1) = fst (initialize Part000 sz ex w2)
          \<and> forget (snd (initialize Lib sz ex w1)) = forget (snd (initialize Part000 sz ex w2)))"
  using alike_run_steps [OF assms] alike_run_ops [OF assms(1,2,3)]
    alikeD [OF alike_initialize assms(3)] by simp

lemmas step_defs = ex_defs survives_def elapse_def

theorem modules_agree_up_to_expiry_witness:
  "0 < cfg_expiration cfg5 \<and> cfg_size cfg5 = cfg_size cfg5 \<and> forget fresh = forget fresh
   \<and> (0::nat) < 60
   \<and> nothing_expires Lib cfg5
        [Op AddRequest, Wait 30, Op (SetRequest ''a''), Wait 28, Op (CheckDone ''a''),
         Op (SetDone ''a'' ''ok''), Wait 1, Op (CheckDone ''a''), Op (RemoveRequest ''a''),
         Op GetSize, Op GetCount] fresh
   \<and> nothing_expires Part000 cfg5
        [Op AddRequest, Wait 30, Op (SetRequest ''a''), Wait 28, Op (CheckDone ''a''),
         Op (SetDone ''a'' ''ok''), Wait 1, Op (CheckDone ''a''), Op (RemoveRequest ''a''),
         Op GetSize, Op GetCount] fresh
   \<and> fst (run_steps Part000 cfg5
        [Op AddRequest, Wait 30, Op (SetRequest ''a''), Wait 28, Op (CheckDone ''a''),
         Op (SetDone ''a'' ''ok''), Wait 1, Op (CheckDone ''a''), Op (RemoveRequest ''a''),
         Op GetSize, Op GetCount] fresh)
       = [Inr (JStr ''OK''), Inr (JStr ''OK''), Inr (JBool False), Inr (JStr ''OK''),
          Inr (JStr ''ok''), Inr (JNum 1), Inr (JStr ''5''), Inr (JStr ''0'')]
   \<and> fst (run_steps Lib cfg5
        [Op AddRequest, Wait 30, Op (SetRequest ''a''), Wait 28, Op (CheckDone ''a''),
         Op (SetDone ''a'' ''ok''), Wait 1, Op (CheckDone ''a''), Op (RemoveRequest ''a''),
         Op GetSize, Op GetCount] fresh)
       = [Inr (JStr ''OK''), Inr (JStr ''OK''), Inr (JBool False), Inr (JStr ''OK''),
          Inr (JStr ''ok''), Inr (JNum 1), Inr (JStr ''5''), Inr (JStr ''0'')]
   \<and> fst (initialize Lib 5 60 fresh) = fst (initialize Part000 5 60 fresh)
   \<and> forget (snd (initialize Lib 5 60 fresh)) = forget (snd (initialize Part000 5 60 fresh))"
proof -
  define steps where "steps = [Op AddRequest, Wait 30, Op (SetRequest ''a''), Wait 28,
         Op (CheckDone ''a''), Op (SetDone ''a'' ''ok''), Wait 1, Op (CheckDone ''a''),
         Op (RemoveRequest ''a''), Op GetSize, Op GetCount]"
  have h1: "0 < cfg_expiration cfg5" by (simp add: cfg5_def)
  have h2: "cfg_size cfg5 = cfg_size cfg5" by simp
  have h3: "forget fresh = forget fresh" by simp
  have h4: "nothing_expires Lib cfg5 steps fresh"
    by (simp add: steps_def step_defs)
  have h5: "nothing_expires Part000 cfg5 steps fresh"
    by (simp add: steps_def step_defs)
  have e: "fst (run_steps Part000 cfg5 steps fresh)
       = [Inr (JStr ''OK''), Inr (JStr ''OK''), Inr (JBool False), Inr (JStr ''OK''),
          Inr (JStr ''ok''), Inr (JNum 1), Inr (JStr ''5''), Inr (JStr ''0'')]"
    by (simp add: steps_def step_defs)
  show ?thesis
    unfolding steps_def [symmetric]
    using modules_agree_up_to_expiry [OF h1 h2 h3 h4 h5, where ex = 60 and sz = 5 and ops = "[]"]
      h1 h4 h5 e by simp
qed

text \<open>
  Including the expiry the stores differ after the first write: a slot written by
  \<^verbatim>\<open>setRequest\<close> has 60 seconds to live in one module and no expiry in the other, and so
  have the counters written by \<^verbatim>\<open>initialize\<close>. And once a key has run out the results
  differ too: 60 seconds after \<^verbatim>\<open>setRequest\<close>, \<^verbatim>\<open>checkDone\<close> returns \<^verbatim>\<open>null\<close> in one
  module and \<^verbatim>\<open>false\<close> in the other; at capacity 1, a second \<^verbatim>\<open>addRequest\<close> 60 seconds
  after the first is admitted by one module, whose counters have expired, and rejected
  by the other.
\<close>

theorem modules_agree_counterexample:
  "store (snd (setRequest Lib cfg5 ''a'' fresh)) ''a'' = Some (''pending'', Some 60)
   \<and> store (snd (setRequest Part000 cfg5 ''a'' fresh)) ''a'' = Some (''pending'', None)
   \<and> snd (setRequest Lib cfg5 ''a'' fresh) \<noteq> snd (setRequest Part000 cfg5 ''a'' fresh)
   \<and> store (snd (initialize Lib 5 60 fresh)) ''QUEUE_SIZE'' = Some (''5'', Some 60)
   \<and> store (snd (initialize Part000 5 60 fresh)) ''QUEUE_SIZE'' = Some (''5'', None)
   \<and> fst (run_steps Lib cfg5 [Op (SetRequest ''a''), Wait 60, Op (CheckDone ''a'')] fresh)
       = [Inr (JStr ''OK''), Inr JNull]
   \<and> fst (run_steps Part000 cfg5 [Op (SetRequest ''a''), Wait 60, Op (CheckDone ''a'')] fresh)
       = [Inr (JStr ''OK''), Inr (JBool False)]
   \<and> fst (run_steps Lib cfg1 [Op AddRequest, Wait 60, Op AddRequest] fresh)
       = [Inr (JStr ''OK''), Inr (JStr ''OK'')]
   \<and> fst (run_steps Part000 cfg1 [Op AddRequest, Wait 60, Op AddRequest] fresh)
       = [Inr (JStr ''OK''), Inl QueueFull]"
proof -
  have a: "store (snd (setRequest Lib cfg5 ''a'' fresh)) ''a'' = Some (''pending'', Some 60)"
    by (simp add: ex_defs)
  have b: "store (snd (setRequest Part000 cfg5 ''a'' fresh)) ''a'' = Some (''pending'', None)"
    by (simp add: ex_defs)
  from a b have c: "snd (setRequest Lib cfg5 ''a'' fresh) \<noteq> snd (setRequest Part000 cfg5 ''a'' fresh)"
    by auto
  have d: "store (snd (initialize Lib 5 60 fresh)) ''QUEUE_SIZE'' = Some (''5'', Some 60)
   \<and> store (snd (initialize Part000 5 60 fresh)) ''QUEUE_SIZE'' = Some (''5'', None)"
    by (simp add: ex_defs)
  have e: "fst (run_steps Lib cfg5 [Op (SetRequest ''a''), Wait 60, Op (CheckDone ''a'')] fresh)
       = [Inr (JStr ''OK''), Inr JNull]
   \<and> fst (run_steps Part000 cfg5 [Op (SetRequest ''a''), Wait 60, Op (CheckDone ''a'')] fresh)
       = [Inr (JStr ''OK''), Inr (JBool False)]"
    by (simp add: step_defs)
  have f: "fst (run_steps Lib cfg1 [Op AddRequest, Wait 60, Op AddRequest] fresh)
       = [Inr (JStr ''OK''), Inr (JStr ''OK'')]
   \<and> fst (run_steps Part000 cfg1 [Op AddRequest, Wait 60, Op AddRequest] fresh)
       = [Inr (JStr ''OK''), Inl QueueFull]"
    by (simp add: step_defs cfg1_def)
  from a b c d e f show ?thesis by blast
qed

end
